theory Spec2Isabelle
  imports Complex_Main "HOL-Library.AList" "HOL-Library.Char_ord" "HOL-Library.List_Lexorder"
begin

section \<open>JavaScript values\<close>

text \<open>
  The member attribute bag is typed \<^verbatim>\<open>any\<close> in the source and holds JSON read from the
  store. A JSON object is an association list in the order \<^verbatim>\<open>Object.keys\<close> enumerates
  it; a lookup takes the first binding of a key (\<open>map_of\<close>), and \<open>own_entries\<close> drops
  shadowed bindings, so a list with a repeated key denotes the same object as the list
  without the repeats. Numbers are the exact values of finite doubles.
\<close>

datatype json =
    JNull
  | JBool bool
  | JNum rat
  | JStr string
  | JArr "json list"
  | JObj "(string \<times> json) list"

text \<open>What a JavaScript \<^verbatim>\<open>throw\<close> carries: a \<^verbatim>\<open>TypeError\<close> of the runtime, or
  an \<^verbatim>\<open>Error\<close> with its message (also what a collaborator's rejected promise carries).\<close>

datatype error = TypeError | Error string

text \<open>The result of a numeric coercion: \<^verbatim>\<open>NaN\<close>, an infinity, or a finite value.\<close>

datatype jsnum = NaN | Infinite | Finite rat

text \<open>
  Built-ins of the JavaScript runtime that the flattener calls and whose results depend
  on double rounding or on the engine: \<^verbatim>\<open>JSON.stringify\<close>, the conversion of a string
  to a number, and the conversion of an array or object to a number (which goes through
  \<^verbatim>\<open>valueOf\<close>/\<^verbatim>\<open>toString\<close> and can throw). They are parameters of the model.
\<close>

record js_runtime =
  JSON_stringify :: "json \<Rightarrow> string"
  StringToNumber :: "string \<Rightarrow> jsnum"
  ObjectToNumber :: "json \<Rightarrow> error + jsnum"

text \<open>\<^verbatim>\<open>ToNumber\<close> on a value that may be \<^verbatim>\<open>undefined\<close> (\<open>None\<close>).\<close>

fun ToNumber :: "js_runtime \<Rightarrow> json option \<Rightarrow> error + jsnum" where
  "ToNumber rt None = Inr NaN"
| "ToNumber rt (Some JNull) = Inr (Finite 0)"
| "ToNumber rt (Some (JBool b)) = Inr (Finite (if b then 1 else 0))"
| "ToNumber rt (Some (JNum x)) = Inr (Finite x)"
| "ToNumber rt (Some (JStr s)) = Inr (StringToNumber rt s)"
| "ToNumber rt (Some v) = ObjectToNumber rt v"

text \<open>The \<^verbatim>\<open>%\<close> operator: the remainder has the sign of the dividend and is exact.\<close>

definition js_trunc :: "rat \<Rightarrow> int" where
  "js_trunc q = (if 0 \<le> q then \<lfloor>q\<rfloor> else \<lceil>q\<rceil>)"

fun js_rem :: "jsnum \<Rightarrow> jsnum \<Rightarrow> jsnum" where
  "js_rem (Finite n) (Finite d) = (if d = 0 then NaN else Finite (n - d * of_int (js_trunc (n / d))))"
| "js_rem (Finite n) Infinite = Finite n"
| "js_rem _ _ = NaN"

text \<open>The \<^verbatim>\<open>===\<close> operator on numbers: \<^verbatim>\<open>NaN\<close> equals nothing.\<close>

fun js_strict_equals :: "jsnum \<Rightarrow> jsnum \<Rightarrow> bool" where
  "js_strict_equals (Finite a) (Finite b) = (a = b)"
| "js_strict_equals Infinite Infinite = True"
| "js_strict_equals _ _ = False"

text \<open>The name \<^verbatim>\<open>Object.keys\<close> gives an array index: its decimal digits.\<close>

definition digit_char :: "nat \<Rightarrow> char" where
  "digit_char d = ''0123456789'' ! d"

fun index_key :: "nat \<Rightarrow> string" where
  "index_key i = (if i < 10 then [digit_char i] else index_key (i div 10) @ [digit_char (i mod 10)])"

text \<open>
  \<^verbatim>\<open>Object.keys(x)\<close> paired with \<^verbatim>\<open>x[key]\<close>: the own enumerable properties of a value.
  An array or a string has its indices, a number or a boolean has none.
\<close>

fun own_entries :: "json \<Rightarrow> (string \<times> json) list" where
  "own_entries (JObj kvs) = AList.clearjunk kvs"
| "own_entries (JArr xs) = zip (map index_key [0..<length xs]) xs"
| "own_entries (JStr s) = zip (map index_key [0..<length s]) (map (\<lambda>c. JStr [c]) s)"
| "own_entries _ = []"

text \<open>
  Property read \<^verbatim>\<open>x[key]\<close> on a JSON value: \<^verbatim>\<open>undefined\<close> is \<open>None\<close>, and reading a
  property of \<^verbatim>\<open>null\<close> throws. The flattener reads one property this way, \<^verbatim>\<open>default\<close>,
  a name that no prototype defines, so the own properties (and \<^verbatim>\<open>length\<close>) decide.
\<close>

fun js_get :: "json \<Rightarrow> string \<Rightarrow> error + json option" where
  "js_get JNull key = Inl TypeError"
| "js_get (JObj kvs) key = Inr (map_of kvs key)"
| "js_get (JArr xs) key =
     Inr (if key = ''length'' then Some (JNum (of_nat (length xs)))
          else map_of (own_entries (JArr xs)) key)"
| "js_get (JStr s) key =
     Inr (if key = ''length'' then Some (JNum (of_nat (length s)))
          else map_of (own_entries (JStr s)) key)"
| "js_get _ key = Inr None"

text \<open>Reading a field of a document (an object) by name.\<close>

fun field :: "string \<Rightarrow> json \<Rightarrow> json option" where
  "field key (JObj kvs) = map_of kvs key"
| "field key _ = None"

text \<open>
  The attribute bag is an ordinary object, as \<^verbatim>\<open>JSON.parse\<close> builds them: besides its own
  keys it inherits the members of \<^verbatim>\<open>Object.prototype\<close>, eleven methods and the accessor
  \<^verbatim>\<open>__proto__\<close>, whose value is the prototype object itself. The names are those of
  \<^verbatim>\<open>Object.getOwnPropertyNames(Object.prototype)\<close>.
\<close>

datatype inherited = Method | Prototype

definition Object_prototype :: "(string \<times> inherited) list" where
  "Object_prototype =
     [(''constructor'', Method), (''__defineGetter__'', Method), (''__defineSetter__'', Method),
      (''hasOwnProperty'', Method), (''__lookupGetter__'', Method), (''__lookupSetter__'', Method),
      (''isPrototypeOf'', Method), (''propertyIsEnumerable'', Method), (''toString'', Method),
      (''valueOf'', Method), (''__proto__'', Prototype), (''toLocaleString'', Method)]"

text \<open>
  \<^verbatim>\<open>obj[key]\<close> for an ordinary object \<open>obj\<close> given by its own entries: an own property
  shadows an inherited one, and \<open>None\<close> is the case where \<^verbatim>\<open>key in obj\<close> is false.
\<close>

datatype property = Own json | Inherited inherited

definition js_property :: "(string \<times> json) list \<Rightarrow> string \<Rightarrow> property option" where
  "js_property obj key =
     (case map_of obj key of
        Some x \<Rightarrow> Some (Own x)
      | None \<Rightarrow> map_option Inherited (map_of Object_prototype key))"

text \<open>The operator \<^verbatim>\<open>key in obj\<close>.\<close>

definition js_in :: "string \<Rightarrow> (string \<times> json) list \<Rightarrow> bool" where
  "js_in key obj \<longleftrightarrow> js_property obj key \<noteq> None"

section \<open>Data model\<close>

text \<open>
  \<^verbatim>\<open>MemberAttributeType\<close> is declared in \<^verbatim>\<open>@crowd/types\<close>; the eight members are the
  cases of the switch in \<^verbatim>\<open>attributeTypeToOpenSearchPrefix\<close>. At run time the type of
  an attribute is a string read from the store, so a value outside the enumeration can
  reach the switch: \<open>Unlisted t\<close> is such a value, \<open>t\<close> its text.
\<close>

datatype MemberAttributeType =
    BOOLEAN | NUMBER | EMAIL | STRING | URL | DATE | MULTI_SELECT | SPECIAL
  | Unlisted string

text \<open>\<^verbatim>\<open>IMemberAttribute\<close>: the fields \<^verbatim>\<open>name\<close> and \<^verbatim>\<open>type\<close> the source reads.\<close>

record IMemberAttribute =
  attr_name :: string
  attr_type :: MemberAttributeType

record IMemberIdentity =
  platform :: string
  username :: string

record IMemberOrganization =
  org_id :: string
  org_logo :: json
  org_displayName :: string

record IMemberTag =
  tag_id :: string
  tag_name :: string

text \<open>
  \<^verbatim>\<open>IDbMemberSyncData\<close>: one row per (member, segment). The declaration is not among
  the sources; the fields are those \<^verbatim>\<open>prefixData\<close> reads (\<open>member_id\<close> and
  \<open>member_tenantId\<close> are the source's \<^verbatim>\<open>id\<close> and \<^verbatim>\<open>tenantId\<close>, \<open>attributes\<close> is the
  attribute bag, an object). Scalars that are only
  copied into the document stay JSON values; \<^verbatim>\<open>emails\<close> may be \<^verbatim>\<open>null\<close>.
\<close>

record IDbMemberSyncData =
  member_id :: string
  member_tenantId :: string
  segmentId :: string
  displayName :: string
  attributes :: "(string \<times> json) list"
  emails :: "string list option"
  score :: json
  lastEnriched :: json
  joinedAt :: string
  totalReach :: json
  numberOfOpenSourceContributions :: json
  identities :: "IMemberIdentity list"
  toMergeIds :: "string list"
  noMergeIds :: "string list"
  organizations :: "IMemberOrganization list"
  tags :: "IMemberTag list"
  activeOn :: "string list"
  activityCount :: json
  activityTypes :: "string list"
  activeDaysCount :: json
  lastActive :: json
  averageSentiment :: json

section \<open>The flattener\<close>

text \<open>\<^verbatim>\<open>attributeTypeToOpenSearchPrefix(defValue, type)\<close>.\<close>

fun attributeTypeToOpenSearchPrefix ::
  "js_runtime \<Rightarrow> json option \<Rightarrow> MemberAttributeType \<Rightarrow> error + string" where
  "attributeTypeToOpenSearchPrefix rt defValue BOOLEAN = Inr ''bool''"
| "attributeTypeToOpenSearchPrefix rt defValue NUMBER =
     (case ToNumber rt defValue of
        Inl e \<Rightarrow> Inl e
      | Inr n \<Rightarrow>
          if js_strict_equals (js_rem n (Finite 1)) (Finite 0) then Inr ''int''
          else Inr ''float'')"
| "attributeTypeToOpenSearchPrefix rt defValue EMAIL = Inr ''string''"
| "attributeTypeToOpenSearchPrefix rt defValue STRING = Inr ''string''"
| "attributeTypeToOpenSearchPrefix rt defValue URL = Inr ''string''"
| "attributeTypeToOpenSearchPrefix rt defValue DATE = Inr ''date''"
| "attributeTypeToOpenSearchPrefix rt defValue MULTI_SELECT = Inr ''string_arr''"
| "attributeTypeToOpenSearchPrefix rt defValue SPECIAL = Inr ''string''"
| "attributeTypeToOpenSearchPrefix rt defValue (Unlisted t) =
     Inl (Error (''Could not map attribute type: '' @ t @ '' to OpenSearch type!''))"

text \<open>
  The inner loop of \<^verbatim>\<open>prefixData\<close>: \<^verbatim>\<open>p_data[`${prefix}_${key}`] = x[key]\<close> for every
  key of \<^verbatim>\<open>Object.keys(x)\<close>, starting from the empty object. An assignment to a key
  keeps the key's place if it is there and appends it otherwise (\<open>AList.update\<close>).
\<close>

definition prefixKeys :: "string \<Rightarrow> json \<Rightarrow> (string \<times> json) list" where
  "prefixKeys prefix x =
     fold (\<lambda>(key, v) p_data. AList.update (prefix @ ''_'' @ key) v p_data) (own_entries x) []"

text \<open>
  The loop over the schema in \<^verbatim>\<open>prefixData\<close>, with \<open>p_attributes\<close> the object built
  so far. An attribute whose name is not \<^verbatim>\<open>in\<close> the bag is skipped before its type is
  looked at; for the others \<^verbatim>\<open>.default\<close> is read before the prefix is computed.

  When the name is in the bag by inheritance only, \<^verbatim>\<open>attData[attribute.name]\<close> is a
  method of \<^verbatim>\<open>Object.prototype\<close> or the prototype itself. Neither has a property
  \<^verbatim>\<open>default\<close> (the read gives \<^verbatim>\<open>undefined\<close>) nor a key for \<^verbatim>\<open>Object.keys\<close>, so a
  definition that is not SPECIAL gives the empty object once its type has a prefix.
  For a SPECIAL definition, \<^verbatim>\<open>JSON.stringify\<close> serializes the prototype as it does the
  empty object and gives \<^verbatim>\<open>undefined\<close> for a method. The document is modelled by its
  JSON form, the form in which the index receives it, and a property that holds
  \<^verbatim>\<open>undefined\<close> is not part of that form: assigning \<^verbatim>\<open>undefined\<close> takes the key out
  (\<open>AList.delete\<close>).
\<close>

fun prefixAttributes ::
  "js_runtime \<Rightarrow> (string \<times> json) list \<Rightarrow> IMemberAttribute list \<Rightarrow> (string \<times> json) list
     \<Rightarrow> error + (string \<times> json) list" where
  "prefixAttributes rt attData [] p_attributes = Inr p_attributes"
| "prefixAttributes rt attData (attribute # rest) p_attributes =
     (case js_property attData (attr_name attribute) of
        None \<Rightarrow> prefixAttributes rt attData rest p_attributes
      | Some (Own x) \<Rightarrow>
          if attr_type attribute = SPECIAL then
            prefixAttributes rt attData rest
              (AList.update (''string_'' @ attr_name attribute) (JStr (JSON_stringify rt x))
                 p_attributes)
          else
            (case js_get x ''default'' of
               Inl e \<Rightarrow> Inl e
             | Inr defValue \<Rightarrow>
                 (case attributeTypeToOpenSearchPrefix rt defValue (attr_type attribute) of
                    Inl e \<Rightarrow> Inl e
                  | Inr prefix \<Rightarrow>
                      prefixAttributes rt attData rest
                        (AList.update (''obj_'' @ attr_name attribute)
                           (JObj (prefixKeys prefix x)) p_attributes)))
      | Some (Inherited m) \<Rightarrow>
          if attr_type attribute = SPECIAL then
            prefixAttributes rt attData rest
              (case m of
                 Method \<Rightarrow> AList.delete (''string_'' @ attr_name attribute) p_attributes
               | Prototype \<Rightarrow>
                   AList.update (''string_'' @ attr_name attribute)
                     (JStr (JSON_stringify rt (JObj []))) p_attributes)
          else
            (case attributeTypeToOpenSearchPrefix rt None (attr_type attribute) of
               Inl e \<Rightarrow> Inl e
             | Inr prefix \<Rightarrow>
                 prefixAttributes rt attData rest
                   (AList.update (''obj_'' @ attr_name attribute) (JObj []) p_attributes)))"

definition prefixIdentity :: "IMemberIdentity \<Rightarrow> json" where
  "prefixIdentity identity =
     JObj [(''string_platform'', JStr (platform identity)),
           (''string_username'', JStr (username identity))]"

definition prefixOrganization :: "IMemberOrganization \<Rightarrow> json" where
  "prefixOrganization organization =
     JObj [(''uuid_id'', JStr (org_id organization)),
           (''string_logo'', org_logo organization),
           (''string_displayName'', JStr (org_displayName organization))]"

definition prefixTag :: "IMemberTag \<Rightarrow> json" where
  "prefixTag tag = JObj [(''uuid_id'', JStr (tag_id tag)), (''string_name'', JStr (tag_name tag))]"

text \<open>The body of the loop over \<^verbatim>\<open>segmentedMembers\<close>: one entry of \<^verbatim>\<open>p_segments\<close>.\<close>

definition prefixSegment :: "IDbMemberSyncData \<Rightarrow> json" where
  "prefixSegment segData =
     JObj [(''uuid_segmentId'', JStr (segmentId segData)),
           (''obj_arr_organizations'', JArr (map prefixOrganization (organizations segData))),
           (''obj_arr_tags'', JArr (map prefixTag (tags segData))),
           (''string_arr_activeOn'', JArr (map JStr (activeOn segData))),
           (''int_activityCount'', activityCount segData),
           (''string_arr_activityTypes'', JArr (map JStr (activityTypes segData))),
           (''int_activeDaysCount'', activeDaysCount segData),
           (''date_lastActive'', lastActive segData),
           (''float_averageSentiment'', averageSentiment segData)]"

text \<open>
  \<^verbatim>\<open>prefixData(segmentedMembers, attributes)\<close>, the schema being \<open>attrs\<close> here
  (\<open>attributes\<close> is the field of the row). On an empty array
  \<^verbatim>\<open>segmentedMembers[0]\<close> is \<^verbatim>\<open>undefined\<close> and the first field read throws. The fields
  of the document are in the order of the assignments.
\<close>

fun prefixData ::
  "js_runtime \<Rightarrow> IDbMemberSyncData list \<Rightarrow> IMemberAttribute list \<Rightarrow> error + json" where
  "prefixData rt [] attrs = Inl TypeError"
| "prefixData rt (data # others) attrs =
     (case prefixAttributes rt (attributes data) attrs [] of
        Inl e \<Rightarrow> Inl e
      | Inr p_attributes \<Rightarrow>
          Inr (JObj
            [(''uuid_memberId'', JStr (member_id data)),
             (''uuid_tenantId'', JStr (member_tenantId data)),
             (''string_displayName'', JStr (displayName data)),
             (''obj_attributes'', JObj p_attributes),
             (''string_arr_emails'',
                JArr (map JStr (case emails data of None \<Rightarrow> [] | Some es \<Rightarrow> es))),
             (''int_score'', score data),
             (''date_lastEnriched'', lastEnriched data),
             (''date_joinedAt'', JStr (joinedAt data)),
             (''int_totalReach'', totalReach data),
             (''int_numberOfOpenSourceContributions'', numberOfOpenSourceContributions data),
             (''obj_arr_identities'', JArr (map prefixIdentity (identities data))),
             (''uuid_arr_toMergeIds'', JArr (map JStr (toMergeIds data))),
             (''uuid_arr_noMergeIds'', JArr (map JStr (noMergeIds data))),
             (''obj_arr_segments'', JArr (map prefixSegment (data # others)))]))"

section \<open>Collaborators\<close>

text \<open>
  \<^verbatim>\<open>MemberRepository\<close> and \<^verbatim>\<open>OpenSearchService\<close> are not among the sources. The
  service is modelled over any implementation of them: an operation takes the state of
  the outside world (the store and the index, of any type \<open>'w\<close>) and gives back what
  the awaited promise settles to, a rejection (\<open>Inl\<close>) or a value (\<open>Inr\<close>), with the
  world after the call.
\<close>

datatype OpenSearchIndex = MEMBERS

text \<open>The query \<^verbatim>\<open>{bool: {filter: {term: {[field]: value}}}}\<close>.\<close>

datatype query = BoolFilterTerm string string

datatype sort_order = Asc | Desc

text \<open>\<^verbatim>\<open>ISearchHit<{date_joinedAt: string}>\<close>: \<^verbatim>\<open>_id\<close> and \<^verbatim>\<open>_source.date_joinedAt\<close>.\<close>

record ISearchHit =
  hit_id :: string
  hit_date_joinedAt :: string

text \<open>\<^verbatim>\<open>IIndexRequest\<close>: \<^verbatim>\<open>{id, body}\<close>.\<close>

record IIndexRequest =
  req_id :: string
  body :: json

record 'w MemberRepository =
  checkMembersExists :: "string \<Rightarrow> string list \<Rightarrow> 'w \<Rightarrow> (error + string list) \<times> 'w"
  setTenanMembersForSync :: "string \<Rightarrow> 'w \<Rightarrow> (error + unit) \<times> 'w"
  getTenantMemberAttributes :: "string \<Rightarrow> 'w \<Rightarrow> (error + IMemberAttribute list) \<times> 'w"
  getTenantMembersForSync :: "string \<Rightarrow> nat \<Rightarrow> nat \<Rightarrow> 'w \<Rightarrow> (error + string list) \<times> 'w"
  getMemberData :: "string list \<Rightarrow> 'w \<Rightarrow> (error + IDbMemberSyncData list) \<times> 'w"
  markSynced :: "string list \<Rightarrow> 'w \<Rightarrow> (error + unit) \<times> 'w"

record 'w OpenSearchService =
  search ::
    "OpenSearchIndex \<Rightarrow> query \<Rightarrow> nat \<Rightarrow> (string \<times> sort_order) list \<Rightarrow> string option
       \<Rightarrow> string list \<Rightarrow> 'w \<Rightarrow> (error + ISearchHit list) \<times> 'w"
  removeFromIndex :: "string \<Rightarrow> OpenSearchIndex \<Rightarrow> 'w \<Rightarrow> (error + unit) \<times> 'w"
  bulkIndex :: "OpenSearchIndex \<Rightarrow> IIndexRequest list \<Rightarrow> 'w \<Rightarrow> (error + unit) \<times> 'w"
  index :: "string \<Rightarrow> OpenSearchIndex \<Rightarrow> json \<Rightarrow> 'w \<Rightarrow> (error + unit) \<times> 'w"

text \<open>
  The service with what it was constructed from: the two collaborators, the runtime, and
  \<^verbatim>\<open>timeout\<close> of \<^verbatim>\<open>@crowd/common\<close> (the world may change while the caller waits).
\<close>

record 'w MemberSyncService =
  memberRepo :: "'w MemberRepository"
  openSearchService :: "'w OpenSearchService"
  runtime :: js_runtime
  timeout :: "nat \<Rightarrow> 'w \<Rightarrow> 'w"

text \<open>
  The calls a run makes, in order, each with how its promise settled. The log is not in
  the source: it is what the ordering claims are stated on. Logging calls
  (\<^verbatim>\<open>this.log\<close>) are left out.
\<close>

datatype call =
    Search OpenSearchIndex query nat "(string \<times> sort_order) list" "string option" "string list"
  | CheckMembersExists string "string list"
  | RemoveFromIndex string OpenSearchIndex
  | SetTenanMembersForSync string
  | GetTenantMemberAttributes string
  | GetTenantMembersForSync string nat nat
  | GetMemberData "string list"
  | BulkIndex OpenSearchIndex "IIndexRequest list"
  | Index string OpenSearchIndex json
  | MarkSynced "string list"
  | Timeout nat

datatype settled = Resolved | Rejected

record 'w state =
  world :: "'w"
  calls :: "(call \<times> settled) list"

text \<open>How a run ends: it returns, it throws, or the model's fuel for its loop ran out.\<close>

datatype 'a outcome = Returned 'a | Threw error | OutOfFuel

text \<open>\<^verbatim>\<open>await\<close> of one collaborator call: the world moves on and the call is logged.\<close>

definition await :: "call \<Rightarrow> ('w \<Rightarrow> (error + 'a) \<times> 'w) \<Rightarrow> 'w state \<Rightarrow> (error + 'a) \<times> 'w state" where
  "await c operation st =
     (case operation (world st) of
        (r, w') \<Rightarrow>
          (r, \<lparr>world = w',
               calls = calls st @ [(c, case r of Inl e \<Rightarrow> Rejected | Inr v \<Rightarrow> Resolved)]\<rparr>))"

text \<open>
  Modelled from the spec: \<^verbatim>\<open>groupBy\<close> of \<^verbatim>\<open>@crowd/common\<close> is not among the sources;
  the spec has it build "an explicit ordered map from id to ordered sequence of
  snapshots". Keys are in the order of their first row, rows in their order.
\<close>

definition groupBy :: "('a \<Rightarrow> 'k) \<Rightarrow> 'a list \<Rightarrow> ('k \<times> 'a list) list" where
  "groupBy selector arr =
     fold (\<lambda>item grouped.
             case map_of grouped (selector item) of
               None \<Rightarrow> grouped @ [(selector item, [item])]
             | Some items \<Rightarrow> AList.update (selector item) (items @ [item]) grouped)
          arr []"

section \<open>The service\<close>

subsection \<open>Orphan cleanup\<close>

definition removeMember :: "'w MemberSyncService \<Rightarrow> string \<Rightarrow> 'w state \<Rightarrow> (error + unit) \<times> 'w state" where
  "removeMember S memberId st =
     await (RemoveFromIndex memberId MEMBERS)
       (removeFromIndex (openSearchService S) memberId MEMBERS) st"

text \<open>\<^verbatim>\<open>for (const id of toRemove) await this.removeMember(id)\<close>: a rejection ends the loop.\<close>

fun removeMembers :: "'w MemberSyncService \<Rightarrow> string list \<Rightarrow> 'w state \<Rightarrow> (error + unit) \<times> 'w state" where
  "removeMembers S [] st = (Inr (), st)"
| "removeMembers S (memberId # toRemove) st =
     (case removeMember S memberId st of
        (Inl e, st') \<Rightarrow> (Inl e, st')
      | (Inr u, st') \<Rightarrow> removeMembers S toRemove st')"

definition cleanup_query :: "string \<Rightarrow> query" where
  "cleanup_query tenantId = BoolFilterTerm ''uuid_tenantId'' tenantId"

definition cleanup_sort :: "(string \<times> sort_order) list" where
  "cleanup_sort = [(''date_joinedAt'', Asc)]"

definition cleanup_include :: "string list" where
  "cleanup_include = [''date_joinedAt'']"

definition pageSize :: nat where
  "pageSize = 500"

text \<open>
  The \<^verbatim>\<open>while (results.length > 0)\<close> loop of \<^verbatim>\<open>cleanupMemberIndex\<close>, one unit of
  fuel per iteration. It returns \<^verbatim>\<open>processed\<close>, which the source logs.
\<close>

fun cleanupLoop ::
  "nat \<Rightarrow> 'w MemberSyncService \<Rightarrow> string \<Rightarrow> ISearchHit list \<Rightarrow> nat \<Rightarrow> 'w state
     \<Rightarrow> nat outcome \<times> 'w state" where
  "cleanupLoop fuel S tenantId [] processed st = (Returned processed, st)"
| "cleanupLoop 0 S tenantId (r # rs) processed st = (OutOfFuel, st)"
| "cleanupLoop (Suc fuel) S tenantId (r # rs) processed st =
     (let results = r # rs;
          ids = map hit_id results
      in case await (CheckMembersExists tenantId ids)
                (checkMembersExists (memberRepo S) tenantId ids) st of
           (Inl e, st1) \<Rightarrow> (Threw e, st1)
         | (Inr dbIds, st1) \<Rightarrow>
             let toRemove = filter (\<lambda>id. id \<notin> set dbIds) ids
             in case (if toRemove \<noteq> [] then removeMembers S toRemove st1 else (Inr (), st1)) of
                  (Inl e, st2) \<Rightarrow> (Threw e, st2)
                | (Inr u, st2) \<Rightarrow>
                    let lastJoinedAt = hit_date_joinedAt (last results)
                    in case await
                              (Search MEMBERS (cleanup_query tenantId) pageSize cleanup_sort
                                 (Some lastJoinedAt) cleanup_include)
                              (search (openSearchService S) MEMBERS (cleanup_query tenantId)
                                 pageSize cleanup_sort (Some lastJoinedAt) cleanup_include)
                              st2 of
                         (Inl e, st3) \<Rightarrow> (Threw e, st3)
                       | (Inr results', st3) \<Rightarrow>
                           cleanupLoop fuel S tenantId results' (processed + length results) st3)"

definition cleanupMemberIndex ::
  "nat \<Rightarrow> 'w MemberSyncService \<Rightarrow> string \<Rightarrow> 'w state \<Rightarrow> nat outcome \<times> 'w state" where
  "cleanupMemberIndex fuel S tenantId st =
     (case await
             (Search MEMBERS (cleanup_query tenantId) pageSize cleanup_sort None cleanup_include)
             (search (openSearchService S) MEMBERS (cleanup_query tenantId) pageSize
                cleanup_sort None cleanup_include)
             st of
        (Inl e, st1) \<Rightarrow> (Threw e, st1)
      | (Inr results, st1) \<Rightarrow> cleanupLoop fuel S tenantId results 0 st1)"

subsection \<open>Full resync\<close>

text \<open>
  The loop that fills \<^verbatim>\<open>prepared\<close>: one request per group, in the order of
  \<^verbatim>\<open>grouped.keys()\<close>; the first \<^verbatim>\<open>prefixData\<close> that throws ends it.
\<close>

fun prepare ::
  "js_runtime \<Rightarrow> IMemberAttribute list \<Rightarrow> (string \<times> IDbMemberSyncData list) list
     \<Rightarrow> error + IIndexRequest list" where
  "prepare rt attrs [] = Inr []"
| "prepare rt attrs ((memberId, members) # grouped) =
     (case prefixData rt members attrs of
        Inl e \<Rightarrow> Inl e
      | Inr p \<Rightarrow>
          (case prepare rt attrs grouped of
             Inl e \<Rightarrow> Inl e
           | Inr prepared \<Rightarrow> Inr (\<lparr>req_id = memberId, body = p\<rparr> # prepared)))"

text \<open>
  The body of the \<^verbatim>\<open>while (memberIds.length > 0)\<close> loop up to the log line: fetch,
  group, flatten, bulk write, mark synced. It gives the new \<^verbatim>\<open>count\<close>.
\<close>

definition syncBatch ::
  "'w MemberSyncService \<Rightarrow> IMemberAttribute list \<Rightarrow> string list \<Rightarrow> nat \<Rightarrow> 'w state
     \<Rightarrow> (error + nat) \<times> 'w state" where
  "syncBatch S attrs memberIds count st =
     (case await (GetMemberData memberIds) (getMemberData (memberRepo S) memberIds) st of
        (Inl e, st1) \<Rightarrow> (Inl e, st1)
      | (Inr allMembers, st1) \<Rightarrow>
          let grouped = groupBy member_id allMembers
          in if grouped \<noteq> [] then
               let ids = map fst grouped
               in case prepare (runtime S) attrs grouped of
                    Inl e \<Rightarrow> (Inl e, st1)
                  | Inr prepared \<Rightarrow>
                      (case await (BulkIndex MEMBERS prepared)
                               (bulkIndex (openSearchService S) MEMBERS prepared) st1 of
                         (Inl e, st2) \<Rightarrow> (Inl e, st2)
                       | (Inr u, st2) \<Rightarrow>
                           (case await (MarkSynced ids) (markSynced (memberRepo S) ids) st2 of
                              (Inl e, st3) \<Rightarrow> (Inl e, st3)
                            | (Inr u', st3) \<Rightarrow> (Inr (count + length ids), st3)))
             else (Inr count, st1))"

fun syncLoop ::
  "nat \<Rightarrow> 'w MemberSyncService \<Rightarrow> string \<Rightarrow> nat \<Rightarrow> IMemberAttribute list \<Rightarrow> string list \<Rightarrow> nat
     \<Rightarrow> 'w state \<Rightarrow> nat outcome \<times> 'w state" where
  "syncLoop fuel S tenantId batchSize attrs [] count st = (Returned count, st)"
| "syncLoop 0 S tenantId batchSize attrs (m # ms) count st = (OutOfFuel, st)"
| "syncLoop (Suc fuel) S tenantId batchSize attrs (m # ms) count st =
     (case syncBatch S attrs (m # ms) count st of
        (Inl e, st1) \<Rightarrow> (Threw e, st1)
      | (Inr count', st1) \<Rightarrow>
          (case await (GetTenantMembersForSync tenantId 1 batchSize)
                   (getTenantMembersForSync (memberRepo S) tenantId 1 batchSize) st1 of
             (Inl e, st2) \<Rightarrow> (Threw e, st2)
           | (Inr memberIds, st2) \<Rightarrow>
               syncLoop fuel S tenantId batchSize attrs memberIds count' st2))"

text \<open>
  \<^verbatim>\<open>syncTenantMembers(tenantId, reset, batchSize)\<close>; the source's defaults are
  \<^verbatim>\<open>reset = true\<close> and \<^verbatim>\<open>batchSize = 500\<close>. \<^verbatim>\<open>logExecutionTime\<close> runs its callback
  and passes its result or its exception on. It returns \<^verbatim>\<open>count\<close>, which the source
  logs.
\<close>

definition syncTenantMembers ::
  "nat \<Rightarrow> 'w MemberSyncService \<Rightarrow> string \<Rightarrow> bool \<Rightarrow> nat \<Rightarrow> 'w state \<Rightarrow> nat outcome \<times> 'w state" where
  "syncTenantMembers fuel S tenantId reset batchSize st =
     (case (if reset then
              await (SetTenanMembersForSync tenantId)
                (setTenanMembersForSync (memberRepo S) tenantId) st
            else (Inr (), st)) of
        (Inl e, st1) \<Rightarrow> (Threw e, st1)
      | (Inr u, st1) \<Rightarrow>
          (case await (GetTenantMemberAttributes tenantId)
                   (getTenantMemberAttributes (memberRepo S) tenantId) st1 of
             (Inl e, st2) \<Rightarrow> (Threw e, st2)
           | (Inr attrs, st2) \<Rightarrow>
               (case await (GetTenantMembersForSync tenantId 1 batchSize)
                        (getTenantMembersForSync (memberRepo S) tenantId 1 batchSize) st2 of
                  (Inl e, st3) \<Rightarrow> (Threw e, st3)
                | (Inr memberIds, st3) \<Rightarrow>
                    syncLoop fuel S tenantId batchSize attrs memberIds 0 st3)))"

subsection \<open>Incremental sync\<close>

text \<open>
  \<^verbatim>\<open>syncMember(memberId, retries = 0)\<close>. The retry is the source's recursive call with
  \<^verbatim>\<open>++retries\<close>, after \<^verbatim>\<open>timeout(100)\<close>, which cannot reject.
\<close>

function syncMember ::
  "'w MemberSyncService \<Rightarrow> string \<Rightarrow> nat \<Rightarrow> 'w state \<Rightarrow> unit outcome \<times> 'w state" where
  "syncMember S memberId retries st =
     (case await (GetMemberData [memberId]) (getMemberData (memberRepo S) [memberId]) st of
        (Inl e, st1) \<Rightarrow> (Threw e, st1)
      | (Inr members, st1) \<Rightarrow>
          (case members of
             data # others \<Rightarrow>
               (case await (GetTenantMemberAttributes (member_tenantId data))
                        (getTenantMemberAttributes (memberRepo S) (member_tenantId data)) st1 of
                  (Inl e, st2) \<Rightarrow> (Threw e, st2)
                | (Inr attrs, st2) \<Rightarrow>
                    (case prefixData (runtime S) members attrs of
                       Inl e \<Rightarrow> (Threw e, st2)
                     | Inr prepared \<Rightarrow>
                         (case await (Index memberId MEMBERS prepared)
                                  (index (openSearchService S) memberId MEMBERS prepared) st2 of
                            (Inl e, st3) \<Rightarrow> (Threw e, st3)
                          | (Inr u, st3) \<Rightarrow>
                              (case await (MarkSynced [memberId])
                                       (markSynced (memberRepo S) [memberId]) st3 of
                                 (Inl e, st4) \<Rightarrow> (Threw e, st4)
                               | (Inr u', st4) \<Rightarrow> (Returned (), st4)))))
           | [] \<Rightarrow>
               if retries < 5 then
                 (case await (Timeout 100) (\<lambda>w. (Inr (), timeout S 100 w)) st1 of
                    (r, st2) \<Rightarrow> syncMember S memberId (Suc retries) st2)
               else
                 (case await (RemoveFromIndex memberId MEMBERS)
                          (removeFromIndex (openSearchService S) memberId MEMBERS) st1 of
                    (Inl e, st2) \<Rightarrow> (Threw e, st2)
                  | (Inr u, st2) \<Rightarrow> (Returned (), st2))))"
  by pat_completeness auto
termination
  by (relation "measure (\<lambda>(S, memberId, retries, st). 5 - retries)") auto

declare syncMember.simps [simp del]

section \<open>Reading the log of a run\<close>

text \<open>The ids an index write is for: those of a bulk request, or the one of a single write.\<close>

fun write_ids :: "call \<Rightarrow> string list option" where
  "write_ids (BulkIndex idx prepared) = Some (map req_id prepared)"
| "write_ids (Index memberId idx doc) = Some [memberId]"
| "write_ids c = None"

text \<open>
  Every \<^verbatim>\<open>markSynced\<close> call of the log comes right after an index write for the same
  ids that resolved; \<open>prev\<close> is the call before the log's first.
\<close>

fun marks_follow_writes :: "(call \<times> settled) option \<Rightarrow> (call \<times> settled) list \<Rightarrow> bool" where
  "marks_follow_writes prev [] = True"
| "marks_follow_writes prev (e # es) =
     ((case fst e of
         MarkSynced ids \<Rightarrow>
           (case prev of
              Some (w, Resolved) \<Rightarrow> write_ids w = Some ids
            | Some (w, Rejected) \<Rightarrow> False
            | None \<Rightarrow> False)
       | c \<Rightarrow> True) \<and>
      marks_follow_writes (Some e) es)"

text \<open>A call that was rejected is the last call of the log: the run ended there.\<close>

fun rejection_ends_run :: "(call \<times> settled) list \<Rightarrow> bool" where
  "rejection_ends_run [] = True"
| "rejection_ends_run (e # es) = ((if snd e = Rejected then es = [] else True) \<and> rejection_ends_run es)"

text \<open>
  What a step of a run adds to the log, from the state before it to the state after it:
  calls among which every \<^verbatim>\<open>markSynced\<close> follows its write and a rejection is last
  (\<open>appends_well\<close>), or such calls that all resolved (\<open>appends_resolved\<close>).
\<close>

definition appends_well :: "'w state \<Rightarrow> 'w state \<Rightarrow> bool" where
  "appends_well st st' \<longleftrightarrow>
     (\<exists>tr. calls st' = calls st @ tr \<and> (\<forall>p. marks_follow_writes p tr) \<and> rejection_ends_run tr)"

definition appends_resolved :: "'w state \<Rightarrow> 'w state \<Rightarrow> bool" where
  "appends_resolved st st' \<longleftrightarrow>
     (\<exists>tr. calls st' = calls st @ tr \<and> (\<forall>p. marks_follow_writes p tr) \<and>
           (\<forall>e \<in> set tr. snd e = Resolved))"

text \<open>The ids a run removed, the pages it asked the store about, and its searches.\<close>

fun removed_ids :: "(call \<times> settled) list \<Rightarrow> string list" where
  "removed_ids [] = []"
| "removed_ids ((RemoveFromIndex memberId idx, r) # tr) = memberId # removed_ids tr"
| "removed_ids (e # tr) = removed_ids tr"

fun checked_pages :: "(call \<times> settled) list \<Rightarrow> (string \<times> string list) list" where
  "checked_pages [] = []"
| "checked_pages ((CheckMembersExists tenantId ids, r) # tr) = (tenantId, ids) # checked_pages tr"
| "checked_pages (e # tr) = checked_pages tr"

fun search_calls :: "(call \<times> settled) list \<Rightarrow> call list" where
  "search_calls [] = []"
| "search_calls ((Search idx q perPage srt cursor projected, r) # tr) =
     Search idx q perPage srt cursor projected # search_calls tr"
| "search_calls (e # tr) = search_calls tr"

section \<open>The store and the index of the specification\<close>

text \<open>
  Modelled from the spec: the implementations of \<^verbatim>\<open>MemberRepository\<close> (the spec's
  MemberStore) and \<^verbatim>\<open>OpenSearchService\<close> (its IndexClient) are not among the sources.
  The world below is the state the spec gives them: the members of each tenant, the
  snapshot rows, the attribute schema of each tenant, the per-tenant pending queue, and
  the index documents by id. Every operation resolves; rejections are covered by the
  statements over arbitrary collaborators.
\<close>

record world =
  store_members :: "(string \<times> string) list"
  store_rows :: "IDbMemberSyncData list"
  store_schemas :: "string \<Rightarrow> IMemberAttribute list"
  store_pending :: "string \<Rightarrow> string list"
  index_documents :: "(string \<times> json) list"

text \<open>
  Modelled from the spec: \<^verbatim>\<open>existingIds(tenantId, ids)\<close>, "the subset that still
  exist". \<open>store_members\<close> holds (member id, tenant id).
\<close>

definition spec_existingIds :: "string \<Rightarrow> string list \<Rightarrow> world \<Rightarrow> (error + string list) \<times> world" where
  "spec_existingIds tenantId ids w =
     (Inr (filter (\<lambda>memberId. (memberId, tenantId) \<in> set (store_members w)) ids), w)"

text \<open>
  Modelled from the spec: \<^verbatim>\<open>setPendingQueue(tenantId)\<close>, "replace the tenant's pending
  queue with all member ids for that tenant"; the queue is an ordered set.
\<close>

definition spec_setPendingQueue :: "string \<Rightarrow> world \<Rightarrow> (error + unit) \<times> world" where
  "spec_setPendingQueue tenantId w =
     (Inr (),
      w\<lparr>store_pending := (store_pending w)
           (tenantId := remdups (map fst (filter (\<lambda>m. snd m = tenantId) (store_members w))))\<rparr>)"

text \<open>Modelled from the spec: \<^verbatim>\<open>fetchAttributeSchema(tenantId)\<close>.\<close>

definition spec_fetchAttributeSchema ::
  "string \<Rightarrow> world \<Rightarrow> (error + IMemberAttribute list) \<times> world" where
  "spec_fetchAttributeSchema tenantId w = (Inr (store_schemas w tenantId), w)"

text \<open>
  Modelled from the spec: \<^verbatim>\<open>claimPending(tenantId, page, pageSize)\<close>, a page (counted
  from 1) of the ids still pending.
\<close>

definition spec_claimPending :: "string \<Rightarrow> nat \<Rightarrow> nat \<Rightarrow> world \<Rightarrow> (error + string list) \<times> world" where
  "spec_claimPending tenantId page perPage w =
     (Inr (take perPage (drop ((page - 1) * perPage) (store_pending w tenantId))), w)"

text \<open>Modelled from the spec: \<^verbatim>\<open>fetchSnapshots(ids)\<close>, the rows of the given members.\<close>

definition spec_fetchSnapshots ::
  "string list \<Rightarrow> world \<Rightarrow> (error + IDbMemberSyncData list) \<times> world" where
  "spec_fetchSnapshots ids w = (Inr (filter (\<lambda>r. member_id r \<in> set ids) (store_rows w)), w)"

text \<open>Modelled from the spec: \<^verbatim>\<open>markSynced(ids)\<close>, the ids leave the pending queues.\<close>

definition spec_markSynced :: "string list \<Rightarrow> world \<Rightarrow> (error + unit) \<times> world" where
  "spec_markSynced ids w =
     (Inr (),
      w\<lparr>store_pending := (\<lambda>t. filter (\<lambda>memberId. memberId \<notin> set ids) (store_pending w t))\<rparr>)"

text \<open>A string field of a document; a document without it reads as the empty string.\<close>

definition string_field :: "string \<Rightarrow> json \<Rightarrow> string" where
  "string_field key doc = (case field key doc of Some (JStr s) \<Rightarrow> s | _ \<Rightarrow> [])"

definition search_hit :: "string \<times> json \<Rightarrow> ISearchHit" where
  "search_hit d = \<lparr>hit_id = fst d, hit_date_joinedAt = string_field ''date_joinedAt'' (snd d)\<rparr>"

text \<open>
  Modelled from the spec: \<^verbatim>\<open>search(query, pageSize, sort, cursor?, projectedFields?)\<close>.
  The documents whose field equals the term, in ascending order of the sort key (a stable
  sort; timestamps of one format compare as their strings do), strictly after the cursor
  when there is one, cut to the page size. Other shapes of query and sort are not
  modelled and are answered with a rejection.
\<close>

definition spec_search ::
  "OpenSearchIndex \<Rightarrow> query \<Rightarrow> nat \<Rightarrow> (string \<times> sort_order) list \<Rightarrow> string option \<Rightarrow> string list
     \<Rightarrow> world \<Rightarrow> (error + ISearchHit list) \<times> world" where
  "spec_search idx q perPage srt cursor projected w =
     (case (q, srt) of
        (BoolFilterTerm f v, [(key, Asc)]) \<Rightarrow>
          (Inr (map search_hit
                 (take perPage
                   (sort_key (\<lambda>d. string_field key (snd d))
                     (filter (\<lambda>d. field f (snd d) = Some (JStr v) \<and>
                                   (case cursor of
                                      None \<Rightarrow> True
                                    | Some c \<Rightarrow> c < string_field key (snd d)))
                        (index_documents w))))), w)
      | _ \<Rightarrow> (Inl (Error ''search shape not modelled''), w))"

text \<open>Modelled from the spec: \<^verbatim>\<open>delete(id, indexName)\<close>.\<close>

definition spec_delete :: "string \<Rightarrow> OpenSearchIndex \<Rightarrow> world \<Rightarrow> (error + unit) \<times> world" where
  "spec_delete memberId idx w =
     (Inr (), w\<lparr>index_documents := filter (\<lambda>d. fst d \<noteq> memberId) (index_documents w)\<rparr>)"

text \<open>
  Modelled from the spec: \<^verbatim>\<open>write(id, indexName, body)\<close>; "documents are fully replaced
  (not patched) on each sync", one document per id.
\<close>

definition spec_write :: "string \<Rightarrow> OpenSearchIndex \<Rightarrow> json \<Rightarrow> world \<Rightarrow> (error + unit) \<times> world" where
  "spec_write memberId idx doc w =
     (Inr (), w\<lparr>index_documents := AList.update memberId doc (index_documents w)\<rparr>)"

text \<open>Modelled from the spec: \<^verbatim>\<open>bulkWrite(indexName, [{id, body}])\<close>, the writes in order.\<close>

definition spec_bulkWrite ::
  "OpenSearchIndex \<Rightarrow> IIndexRequest list \<Rightarrow> world \<Rightarrow> (error + unit) \<times> world" where
  "spec_bulkWrite idx requests w =
     (Inr (),
      w\<lparr>index_documents :=
          fold (\<lambda>r docs. AList.update (req_id r) (body r) docs) requests (index_documents w)\<rparr>)"

text \<open>The service over the specification's store and index; waiting changes nothing.\<close>

definition spec_service :: "js_runtime \<Rightarrow> world MemberSyncService" where
  "spec_service rt =
     \<lparr>memberRepo =
        \<lparr>checkMembersExists = spec_existingIds,
         setTenanMembersForSync = spec_setPendingQueue,
         getTenantMemberAttributes = spec_fetchAttributeSchema,
         getTenantMembersForSync = spec_claimPending,
         getMemberData = spec_fetchSnapshots,
         markSynced = spec_markSynced\<rparr>,
      openSearchService =
        \<lparr>search = spec_search,
         removeFromIndex = spec_delete,
         bulkIndex = spec_bulkWrite,
         index = spec_write\<rparr>,
      runtime = rt,
      timeout = (\<lambda>ms w. w)\<rparr>"

text \<open>
  What the cleanup query reads of an index document (an id with its body): the sort key,
  and whether it belongs to the tenant.
\<close>

definition doc_joinedAt :: "string \<times> json \<Rightarrow> string" where
  "doc_joinedAt d = string_field ''date_joinedAt'' (snd d)"

definition doc_of_tenant :: "string \<Rightarrow> string \<times> json \<Rightarrow> bool" where
  "doc_of_tenant tenantId d \<longleftrightarrow> field ''uuid_tenantId'' (snd d) = Some (JStr tenantId)"

text \<open>The tenant's documents in the order the cleanup scans them.\<close>

definition scan_order :: "string \<Rightarrow> world \<Rightarrow> (string \<times> json) list" where
  "scan_order tenantId w = sort_key doc_joinedAt (filter (doc_of_tenant tenantId) (index_documents w))"

text \<open>An orphan: a document of the tenant whose id is no member of the tenant in the store.\<close>

definition is_orphan :: "string \<Rightarrow> world \<Rightarrow> string \<times> json \<Rightarrow> bool" where
  "is_orphan tenantId w d \<longleftrightarrow>
     doc_of_tenant tenantId d \<and> (fst d, tenantId) \<notin> set (store_members w)"

section \<open>Pages of a queue\<close>

text \<open>The pages a queue is claimed in: pages of \<open>B\<close> ids, the last one possibly shorter.\<close>

function pages :: "nat \<Rightarrow> 'a list \<Rightarrow> 'a list list" where
  "pages B xs = (if B = 0 \<or> xs = [] then [] else take B xs # pages B (drop B xs))"
  by pat_completeness auto
termination
  by (relation "measure (\<lambda>(B, xs). length xs)") auto

declare pages.simps [simp del]

text \<open>The batches a run fetched, the batches it marked, and how many times it claimed.\<close>

fun fetched_batches :: "(call \<times> settled) list \<Rightarrow> string list list" where
  "fetched_batches [] = []"
| "fetched_batches ((GetMemberData ids, r) # tr) = ids # fetched_batches tr"
| "fetched_batches (e # tr) = fetched_batches tr"

fun marked_batches :: "(call \<times> settled) list \<Rightarrow> string list list" where
  "marked_batches [] = []"
| "marked_batches ((MarkSynced ids, r) # tr) = ids # marked_batches tr"
| "marked_batches (e # tr) = marked_batches tr"

fun claim_count :: "(call \<times> settled) list \<Rightarrow> nat" where
  "claim_count [] = 0"
| "claim_count ((GetTenantMembersForSync t page perPage, r) # tr) = Suc (claim_count tr)"
| "claim_count (e # tr) = claim_count tr"

text \<open>The queue the first claim of a full resync reads, in the specification's store.\<close>

definition initial_queue :: "bool \<Rightarrow> string \<Rightarrow> world \<Rightarrow> string list" where
  "initial_queue reset tenantId w =
     (if reset then remdups (map fst (filter (\<lambda>m. snd m = tenantId) (store_members w)))
      else store_pending w tenantId)"

text \<open>
  No two documents either side of a page boundary share the sort key: the last of a page
  sorts strictly before the first of the next page.
\<close>

fun page_breaks_strict :: "('a \<Rightarrow> 'k::linorder) \<Rightarrow> 'a list list \<Rightarrow> bool" where
  "page_breaks_strict key (p # q # ps) \<longleftrightarrow>
     key (last p) < key (hd q) \<and> page_breaks_strict key (q # ps)"
| "page_breaks_strict key ps \<longleftrightarrow> True"

section \<open>Example data\<close>

definition example_runtime :: js_runtime where
  "example_runtime =
     \<lparr>JSON_stringify = (\<lambda>v. ''[json]''), StringToNumber = (\<lambda>s. NaN),
      ObjectToNumber = (\<lambda>v. Inr NaN)\<rparr>"

definition example_row ::
  "string \<Rightarrow> string \<Rightarrow> string \<Rightarrow> string \<Rightarrow> (string \<times> json) list \<Rightarrow> IDbMemberSyncData" where
  "example_row memberId tenantId seg joined bag =
     \<lparr>member_id = memberId, member_tenantId = tenantId, segmentId = seg, displayName = ''Ada'',
      attributes = bag, emails = None, score = JNum 7, lastEnriched = JNull,
      joinedAt = joined, totalReach = JNum 0, numberOfOpenSourceContributions = JNum 2,
      identities = [\<lparr>platform = ''github'', username = ''ada''\<rparr>],
      toMergeIds = [], noMergeIds = [''m9''],
      organizations = [\<lparr>org_id = ''o1'', org_logo = JNull, org_displayName = ''Acme''\<rparr>],
      tags = [\<lparr>tag_id = ''g1'', tag_name = ''vip''\<rparr>],
      activeOn = [''github''], activityCount = JNum 3, activityTypes = [''star''],
      activeDaysCount = JNum 1, lastActive = JStr ''2023-02-01'',
      averageSentiment = JNum (11 / 2)\<rparr>"

definition example_bag :: "(string \<times> json) list" where
  "example_bag =
     [(''isBot'', JObj [(''default'', JBool False), (''github'', JBool False)]),
      (''karma'', JObj [(''default'', JNum 5), (''github'', JNum 5)]),
      (''rating'', JObj [(''default'', JNum (11 / 2)), (''custom'', JNum (11 / 2))]),
      (''age'', JObj [(''default'', JNull), (''github'', JNum 3)]),
      (''syncRemote'', JObj [(''hubspot'', JBool True)])]"

definition example_schema :: "IMemberAttribute list" where
  "example_schema =
     [\<lparr>attr_name = ''isBot'', attr_type = BOOLEAN\<rparr>,
      \<lparr>attr_name = ''karma'', attr_type = NUMBER\<rparr>,
      \<lparr>attr_name = ''rating'', attr_type = NUMBER\<rparr>,
      \<lparr>attr_name = ''age'', attr_type = NUMBER\<rparr>,
      \<lparr>attr_name = ''syncRemote'', attr_type = SPECIAL\<rparr>,
      \<lparr>attr_name = ''legacy'', attr_type = Unlisted ''json''\<rparr>]"

text \<open>A minimal index document: the two fields the cleanup query reads.\<close>

definition example_doc :: "string \<Rightarrow> string \<Rightarrow> json" where
  "example_doc tenantId joined =
     JObj [(''uuid_tenantId'', JStr tenantId), (''date_joinedAt'', JStr joined)]"

text \<open>
  A store with three members of tenant \<open>t1\<close> (four rows: \<open>m1\<close> is in two segments),
  and an index where \<open>m4\<close> is an orphan of \<open>t1\<close> and \<open>x9\<close> belongs to another tenant.
\<close>

definition example_world :: world where
  "example_world =
     \<lparr>store_members = [(''m1'', ''t1''), (''m2'', ''t1''), (''m3'', ''t1'')],
      store_rows =
        [example_row ''m1'' ''t1'' ''s1'' ''2023-01-05'' example_bag,
         example_row ''m1'' ''t1'' ''s2'' ''2023-01-05'' example_bag,
         example_row ''m2'' ''t1'' ''s1'' ''2023-01-06'' [],
         example_row ''m3'' ''t1'' ''s1'' ''2023-01-08'' []],
      store_schemas = (\<lambda>t. if t = ''t1'' then example_schema else []),
      store_pending = (\<lambda>t. []),
      index_documents =
        [(''m1'', example_doc ''t1'' ''2023-01-05''),
         (''m4'', example_doc ''t1'' ''2023-01-07''),
         (''m2'', example_doc ''t1'' ''2023-01-06''),
         (''x9'', example_doc ''t2'' ''2023-01-01'')]\<rparr>"

text \<open>The same world with a single row whose bag holds an attribute of an unlisted type.\<close>

definition example_unlisted_world :: world where
  "example_unlisted_world =
     example_world
       \<lparr>store_rows :=
          [example_row ''m5'' ''t1'' ''s1'' ''2023-01-09''
             [(''legacy'', JObj [(''default'', JStr ''x'')])]]\<rparr>"

text \<open>The same service over an index that rejects every write.\<close>

definition example_failing_service :: "world MemberSyncService" where
  "example_failing_service =
     (spec_service example_runtime)
       \<lparr>openSearchService :=
          \<lparr>search = spec_search,
           removeFromIndex = spec_delete,
           bulkIndex = (\<lambda>idx prepared w. (Inl (Error ''index unavailable''), w)),
           index = (\<lambda>memberId idx doc w. (Inl (Error ''index unavailable''), w))\<rparr>\<rparr>"

text \<open>
  An index of 501 documents of one tenant that share \<open>date_joinedAt\<close>; the store backs
  the first 500 and not the last one.
\<close>

definition tie_world :: world where
  "tie_world =
     \<lparr>store_members = map (\<lambda>i. (index_key i, ''t1'')) [0..<500],
      store_rows = [],
      store_schemas = (\<lambda>t. []),
      store_pending = (\<lambda>t. []),
      index_documents = map (\<lambda>i. (index_key i, example_doc ''t1'' ''2023-01-05'')) [0..<501]\<rparr>"

text \<open>The same world with a single row whose bag holds a \<^verbatim>\<open>null\<close> entry.\<close>

definition example_null_entry_world :: world where
  "example_null_entry_world =
     example_world
       \<lparr>store_rows := [example_row ''m6'' ''t1'' ''s1'' ''2023-01-10'' [(''age'', JNull)]]\<rparr>"

text \<open>
  An index of 502 documents: 501 of tenant \<open>t1\<close>, the first 500 of one day and the last
  of the next day, and one of tenant \<open>t2\<close>. The store backs the ids 1 to 499, so the
  documents 0 and 500 are orphans of \<open>t1\<close>.
\<close>

definition paged_doc :: "nat \<Rightarrow> string \<times> json" where
  "paged_doc i =
     (index_key i,
      example_doc (if i < 501 then ''t1'' else ''t2'')
                  (if i < 500 then ''2023-01-05'' else ''2023-01-06''))"

definition paged_world :: world where
  "paged_world =
     \<lparr>store_members = map (\<lambda>i. (index_key i, ''t1'')) [1..<500],
      store_rows = [],
      store_schemas = (\<lambda>t. []),
      store_pending = (\<lambda>t. []),
      index_documents = map paged_doc [0..<502]\<rparr>"

section \<open>Properties of the flattener\<close>

lemma js_trunc_of_int: "js_trunc (of_int i) = i"
  by (simp add: js_trunc_def)

lemma js_mod1_iff: "js_strict_equals (js_rem (Finite x) (Finite 1)) (Finite 0) \<longleftrightarrow> x \<in> \<int>"
proof
  assume "js_strict_equals (js_rem (Finite x) (Finite 1)) (Finite 0)"
  then have "x = of_int (js_trunc x)" by simp
  then show "x \<in> \<int>" by (metis Ints_of_int)
next
  assume "x \<in> \<int>"
  then obtain i where "x = of_int i" by (auto elim: Ints_cases)
  then show "js_strict_equals (js_rem (Finite x) (Finite 1)) (Finite 0)"
    by (simp add: js_trunc_of_int)
qed

lemma update_fresh: "k \<notin> fst ` set al \<Longrightarrow> AList.update k v al = al @ [(k, v)]"
  by (induction al) auto

lemma fold_update_fresh:
  "distinct (map fst es) \<Longrightarrow> inj f \<Longrightarrow> f ` fst ` set es \<inter> fst ` set acc = {} \<Longrightarrow>
   fold (\<lambda>(k, v) p. AList.update (f k) v p) es acc = acc @ map (\<lambda>(k, v). (f k, v)) es"
proof (induction es arbitrary: acc)
  case Nil
  then show ?case by simp
next
  case (Cons e es)
  obtain k v where e: "e = (k, v)" by (cases e)
  have fresh: "f k \<notin> fst ` set acc" using Cons.prems(3) e by auto
  have "f ` fst ` set es \<inter> fst ` set (acc @ [(f k, v)]) = {}"
    using Cons.prems e by (auto simp: inj_eq image_iff)
  with Cons.IH[of "acc @ [(f k, v)]"] Cons.prems(1,2) fresh e show ?case
    by (simp add: update_fresh)
qed

lemma index_key_nonempty: "index_key n \<noteq> []"
  by (subst index_key.simps) simp

lemma digit_char_inj: "a < 10 \<Longrightarrow> b < 10 \<Longrightarrow> digit_char a = digit_char b \<Longrightarrow> a = b"
proof -
  assume a: "a < 10" and b: "b < 10" and eq: "digit_char a = digit_char b"
  have "distinct ''0123456789''" by simp
  moreover have "a < length ''0123456789''" "b < length ''0123456789''" using a b by simp_all
  ultimately show "a = b" using eq unfolding digit_char_def by (simp only: nth_eq_iff_index_eq)
qed

lemma index_key_inj: "index_key n = index_key m \<Longrightarrow> n = m"
proof (induction n arbitrary: m rule: index_key.induct)
  case (1 n)
  have small: "index_key k = [digit_char k]" if "k < 10" for k
    using that by simp
  have big: "index_key k = index_key (k div 10) @ [digit_char (k mod 10)]" if "\<not> k < 10" for k
    using that by (subst index_key.simps) simp
  show ?case
  proof (cases "n < 10")
    case n: True
    show ?thesis
    proof (cases "m < 10")
      case True
      with n "1.prems" show ?thesis by (auto simp: small dest: digit_char_inj)
    next
      case False
      with n "1.prems" index_key_nonempty[of "m div 10"] show ?thesis
        by (simp add: small big)
    qed
  next
    case n: False
    show ?thesis
    proof (cases "m < 10")
      case True
      with n "1.prems" index_key_nonempty[of "n div 10"] show ?thesis
        by (simp add: small big)
    next
      case False
      with n "1.prems" have h: "index_key (n div 10) = index_key (m div 10)"
        and c: "digit_char (n mod 10) = digit_char (m mod 10)" by (simp_all add: big)
      from "1.IH"[OF n h] have d: "n div 10 = m div 10" .
      have "n mod 10 = m mod 10" by (rule digit_char_inj[OF _ _ c]) simp_all
      with d show ?thesis by (metis div_mult_mod_eq)
    qed
  qed
qed

lemma distinct_own_entries: "distinct (map fst (own_entries x))"
proof (cases x)
  case (JArr xs)
  have "distinct (map index_key [0..<length xs])"
    by (simp add: distinct_map inj_on_def index_key_inj)
  then show ?thesis using JArr by simp
next
  case (JStr s)
  have "distinct (map index_key [0..<length s])"
    by (simp add: distinct_map inj_on_def index_key_inj)
  then show ?thesis using JStr by simp
qed simp_all

lemma prefixKeys_map:
  "prefixKeys prefix x = map (\<lambda>(key, v). (prefix @ ''_'' @ key, v)) (own_entries x)"
  unfolding prefixKeys_def
  using fold_update_fresh[of "own_entries x" "\<lambda>key. prefix @ ''_'' @ key" "[]"]
  by (simp add: distinct_own_entries inj_def)

lemma clearjunk_distinct: "distinct (map fst al) \<Longrightarrow> AList.clearjunk al = al"
  by (induction al) auto

lemma js_property_own [simp]: "map_of obj key = Some x \<Longrightarrow> js_property obj key = Some (Own x)"
  by (simp add: js_property_def)

lemma js_property_inherited:
  "map_of obj key = None \<Longrightarrow> js_property obj key = map_option Inherited (map_of Object_prototype key)"
  by (simp add: js_property_def)

lemma js_property_Own_iff: "js_property obj key = Some (Own x) \<longleftrightarrow> map_of obj key = Some x"
  by (auto simp: js_property_def split: option.splits)

lemma prefixAttributes_append:
  "prefixAttributes rt bag (xs @ ys) acc =
     (case prefixAttributes rt bag xs acc of
        Inl e \<Rightarrow> Inl e
      | Inr acc' \<Rightarrow> prefixAttributes rt bag ys acc')"
  by (induction xs arbitrary: acc)
     (auto split: option.splits sum.splits property.splits inherited.splits)

lemma prefixAttributes_other_key:
  "prefixAttributes rt bag attrs acc = Inr pa \<Longrightarrow>
   \<forall>b \<in> set attrs. key \<noteq> ''string_'' @ attr_name b \<and> key \<noteq> ''obj_'' @ attr_name b \<Longrightarrow>
   map_of pa key = map_of acc key"
  by (induction attrs arbitrary: acc)
     (auto split: option.splits sum.splits if_splits property.splits inherited.splits
           simp: AList.update_conv' AList.delete_conv')

lemma prefixAttributes_special:
  assumes "prefixAttributes rt bag attrs acc = Inr pa"
    and "distinct (map attr_name attrs)"
    and "a \<in> set attrs"
    and "map_of bag (attr_name a) = Some x"
    and "attr_type a = SPECIAL"
  shows "map_of pa (''string_'' @ attr_name a) = Some (JStr (JSON_stringify rt x))"
    and "map_of pa (''obj_'' @ attr_name a) = map_of acc (''obj_'' @ attr_name a)"
proof -
  from assms(3) obtain pre post where sp: "attrs = pre @ a # post"
    by (auto simp: in_set_conv_decomp)
  from assms(2) sp have n1: "attr_name a \<notin> attr_name ` set pre"
    and n2: "attr_name a \<notin> attr_name ` set post" by simp_all
  from n1 have d1: "\<forall>b \<in> set pre. attr_name a \<noteq> attr_name b" by (metis imageI)
  from n2 have d2: "\<forall>b \<in> set post. attr_name a \<noteq> attr_name b" by (metis imageI)
  from assms(1) sp obtain acc1 where a1: "prefixAttributes rt bag pre acc = Inr acc1"
    and a2: "prefixAttributes rt bag (a # post) acc1 = Inr pa"
    by (auto simp: prefixAttributes_append split: sum.splits)
  let ?acc2 = "AList.update (''string_'' @ attr_name a) (JStr (JSON_stringify rt x)) acc1"
  from a2 assms(4,5) have a3: "prefixAttributes rt bag post ?acc2 = Inr pa" by simp
  have "map_of pa (''string_'' @ attr_name a) = map_of ?acc2 (''string_'' @ attr_name a)"
    using prefixAttributes_other_key[OF a3, where key = "''string_'' @ attr_name a"] d2 by simp
  then show "map_of pa (''string_'' @ attr_name a) = Some (JStr (JSON_stringify rt x))"
    by (simp add: AList.update_conv')
  have "map_of pa (''obj_'' @ attr_name a) = map_of ?acc2 (''obj_'' @ attr_name a)"
    using prefixAttributes_other_key[OF a3, where key = "''obj_'' @ attr_name a"] d2 by simp
  also have "\<dots> = map_of acc1 (''obj_'' @ attr_name a)" by (simp add: AList.update_conv')
  also have "\<dots> = map_of acc (''obj_'' @ attr_name a)"
    using prefixAttributes_other_key[OF a1, where key = "''obj_'' @ attr_name a"] d1 by simp
  finally show "map_of pa (''obj_'' @ attr_name a) = map_of acc (''obj_'' @ attr_name a)" .
qed

lemma prefixAttributes_nested:
  assumes "prefixAttributes rt bag attrs acc = Inr pa"
    and "distinct (map attr_name attrs)"
    and "a \<in> set attrs"
    and "map_of bag (attr_name a) = Some x"
    and "attr_type a \<noteq> SPECIAL"
  shows "\<exists>defValue prefix. js_get x ''default'' = Inr defValue \<and>
           attributeTypeToOpenSearchPrefix rt defValue (attr_type a) = Inr prefix \<and>
           map_of pa (''obj_'' @ attr_name a) = Some (JObj (prefixKeys prefix x))"
    and "map_of pa (''string_'' @ attr_name a) = map_of acc (''string_'' @ attr_name a)"
proof -
  from assms(3) obtain pre post where sp: "attrs = pre @ a # post"
    by (auto simp: in_set_conv_decomp)
  from assms(2) sp have n1: "attr_name a \<notin> attr_name ` set pre"
    and n2: "attr_name a \<notin> attr_name ` set post" by simp_all
  from n1 have d1: "\<forall>b \<in> set pre. attr_name a \<noteq> attr_name b" by (metis imageI)
  from n2 have d2: "\<forall>b \<in> set post. attr_name a \<noteq> attr_name b" by (metis imageI)
  from assms(1) sp obtain acc1 where a1: "prefixAttributes rt bag pre acc = Inr acc1"
    and a2: "prefixAttributes rt bag (a # post) acc1 = Inr pa"
    by (auto simp: prefixAttributes_append split: sum.splits)
  from a2 assms(4,5) obtain defValue prefix where dv: "js_get x ''default'' = Inr defValue"
    and pf: "attributeTypeToOpenSearchPrefix rt defValue (attr_type a) = Inr prefix"
    and a3: "prefixAttributes rt bag post
               (AList.update (''obj_'' @ attr_name a) (JObj (prefixKeys prefix x)) acc1) = Inr pa"
    by (auto split: sum.splits)
  let ?acc2 = "AList.update (''obj_'' @ attr_name a) (JObj (prefixKeys prefix x)) acc1"
  have "map_of pa (''obj_'' @ attr_name a) = map_of ?acc2 (''obj_'' @ attr_name a)"
    using prefixAttributes_other_key[OF a3, where key = "''obj_'' @ attr_name a"] d2 by simp
  then have "map_of pa (''obj_'' @ attr_name a) = Some (JObj (prefixKeys prefix x))"
    by (simp add: AList.update_conv')
  with dv pf show "\<exists>defValue prefix. js_get x ''default'' = Inr defValue \<and>
           attributeTypeToOpenSearchPrefix rt defValue (attr_type a) = Inr prefix \<and>
           map_of pa (''obj_'' @ attr_name a) = Some (JObj (prefixKeys prefix x))" by blast
  have "map_of pa (''string_'' @ attr_name a) = map_of ?acc2 (''string_'' @ attr_name a)"
    using prefixAttributes_other_key[OF a3, where key = "''string_'' @ attr_name a"] d2 by simp
  also have "\<dots> = map_of acc1 (''string_'' @ attr_name a)" by (simp add: AList.update_conv')
  also have "\<dots> = map_of acc (''string_'' @ attr_name a)"
    using prefixAttributes_other_key[OF a1, where key = "''string_'' @ attr_name a"] d1 by simp
  finally show "map_of pa (''string_'' @ attr_name a) = map_of acc (''string_'' @ attr_name a)" .
qed

lemma prefixData_obj_attributes:
  "prefixData rt (data # others) attrs = Inr p \<Longrightarrow>
   \<exists>pa. prefixAttributes rt (attributes data) attrs [] = Inr pa \<and>
        field ''obj_attributes'' p = Some (JObj pa)"
  by (auto split: sum.splits)

text \<open>
  C8. The identity and scalar fields of the document, the identities, the merge-id lists
  and the flattened attributes are read from the first snapshot only: the document for
  any other tail of snapshots agrees on every field but \<open>obj_arr_segments\<close>. That field
  has one entry per snapshot, in input order, the \<open>i\<close>-th built from the \<open>i\<close>-th snapshot's
  segment id, organizations, tags, activity figures and sentiment.
\<close>

theorem prefixData_first_snapshot_and_segments:
  assumes "prefixData rt (data # others) attrs = Inr p"
  shows "field ''uuid_memberId'' p = Some (JStr (member_id data)) \<and>
         field ''uuid_tenantId'' p = Some (JStr (member_tenantId data)) \<and>
         field ''string_displayName'' p = Some (JStr (displayName data)) \<and>
         field ''string_arr_emails'' p =
           Some (JArr (map JStr (case emails data of None \<Rightarrow> [] | Some es \<Rightarrow> es))) \<and>
         field ''int_score'' p = Some (score data) \<and>
         field ''date_lastEnriched'' p = Some (lastEnriched data) \<and>
         field ''date_joinedAt'' p = Some (JStr (joinedAt data)) \<and>
         field ''int_totalReach'' p = Some (totalReach data) \<and>
         field ''int_numberOfOpenSourceContributions'' p =
           Some (numberOfOpenSourceContributions data) \<and>
         field ''obj_arr_identities'' p =
           Some (JArr (map (\<lambda>i. JObj [(''string_platform'', JStr (platform i)),
                                       (''string_username'', JStr (username i))])
                        (identities data))) \<and>
         field ''uuid_arr_toMergeIds'' p = Some (JArr (map JStr (toMergeIds data))) \<and>
         field ''uuid_arr_noMergeIds'' p = Some (JArr (map JStr (noMergeIds data))) \<and>
         (\<exists>p_attributes. prefixAttributes rt (attributes data) attrs [] = Inr p_attributes \<and>
            field ''obj_attributes'' p = Some (JObj p_attributes)) \<and>
         (\<forall>others'. \<exists>p'. prefixData rt (data # others') attrs = Inr p' \<and>
            (\<forall>key. key \<noteq> ''obj_arr_segments'' \<longrightarrow> field key p' = field key p)) \<and>
         (\<exists>segments. field ''obj_arr_segments'' p = Some (JArr segments) \<and>
            length segments = length (data # others) \<and>
            (\<forall>i < length (data # others).
               segments ! i =
                 JObj [(''uuid_segmentId'', JStr (segmentId ((data # others) ! i))),
                       (''obj_arr_organizations'',
                          JArr (map (\<lambda>organization.
                                       JObj [(''uuid_id'', JStr (org_id organization)),
                                             (''string_logo'', org_logo organization),
                                             (''string_displayName'',
                                                JStr (org_displayName organization))])
                                  (organizations ((data # others) ! i)))),
                       (''obj_arr_tags'',
                          JArr (map (\<lambda>tag. JObj [(''uuid_id'', JStr (tag_id tag)),
                                                  (''string_name'', JStr (tag_name tag))])
                                  (tags ((data # others) ! i)))),
                       (''string_arr_activeOn'', JArr (map JStr (activeOn ((data # others) ! i)))),
                       (''int_activityCount'', activityCount ((data # others) ! i)),
                       (''string_arr_activityTypes'',
                          JArr (map JStr (activityTypes ((data # others) ! i)))),
                       (''int_activeDaysCount'', activeDaysCount ((data # others) ! i)),
                       (''date_lastActive'', lastActive ((data # others) ! i)),
                       (''float_averageSentiment'', averageSentiment ((data # others) ! i))]))"
proof -
  from assms obtain p_attributes where pa: "prefixAttributes rt (attributes data) attrs [] = Inr p_attributes"
    by (auto split: sum.splits)
  define top where "top =
    [(''uuid_memberId'', JStr (member_id data)),
     (''uuid_tenantId'', JStr (member_tenantId data)),
     (''string_displayName'', JStr (displayName data)),
     (''obj_attributes'', JObj p_attributes),
     (''string_arr_emails'', JArr (map JStr (case emails data of None \<Rightarrow> [] | Some es \<Rightarrow> es))),
     (''int_score'', score data),
     (''date_lastEnriched'', lastEnriched data),
     (''date_joinedAt'', JStr (joinedAt data)),
     (''int_totalReach'', totalReach data),
     (''int_numberOfOpenSourceContributions'', numberOfOpenSourceContributions data),
     (''obj_arr_identities'', JArr (map prefixIdentity (identities data))),
     (''uuid_arr_toMergeIds'', JArr (map JStr (toMergeIds data))),
     (''uuid_arr_noMergeIds'', JArr (map JStr (noMergeIds data)))]"
  have shape: "prefixData rt (data # tl) attrs =
      Inr (JObj (top @ [(''obj_arr_segments'', JArr (map prefixSegment (data # tl)))]))" for tl
    using pa by (simp add: top_def)
  from assms shape[of others]
  have p: "p = JObj (top @ [(''obj_arr_segments'', JArr (map prefixSegment (data # others)))])"
    by simp
  have nseg: "map_of top ''obj_arr_segments'' = None" by (simp add: top_def)
  have fld: "field key (JObj (top @ [(''obj_arr_segments'', v)])) =
      (case map_of top key of Some x \<Rightarrow> Some x
       | None \<Rightarrow> if key = ''obj_arr_segments'' then Some v else None)" for key v
    by (simp add: map_add_def split: option.splits)
  have f1: "field ''uuid_memberId'' p = Some (JStr (member_id data))"
    unfolding p fld by (simp add: top_def)
  have f2: "field ''uuid_tenantId'' p = Some (JStr (member_tenantId data))"
    unfolding p fld by (simp add: top_def)
  have f3: "field ''string_displayName'' p = Some (JStr (displayName data))"
    unfolding p fld by (simp add: top_def)
  have f4: "field ''string_arr_emails'' p =
      Some (JArr (map JStr (case emails data of None \<Rightarrow> [] | Some es \<Rightarrow> es)))"
    unfolding p fld by (simp add: top_def)
  have f5: "field ''int_score'' p = Some (score data)"
    unfolding p fld by (simp add: top_def)
  have f6: "field ''date_lastEnriched'' p = Some (lastEnriched data)"
    unfolding p fld by (simp add: top_def)
  have f7: "field ''date_joinedAt'' p = Some (JStr (joinedAt data))"
    unfolding p fld by (simp add: top_def)
  have f8: "field ''int_totalReach'' p = Some (totalReach data)"
    unfolding p fld by (simp add: top_def)
  have f9: "field ''int_numberOfOpenSourceContributions'' p =
      Some (numberOfOpenSourceContributions data)"
    unfolding p fld by (simp add: top_def)
  have f10: "field ''obj_arr_identities'' p =
      Some (JArr (map (\<lambda>i. JObj [(''string_platform'', JStr (platform i)),
                                  (''string_username'', JStr (username i))])
                   (identities data)))"
    unfolding p fld by (simp add: top_def prefixIdentity_def)
  have f11: "field ''uuid_arr_toMergeIds'' p = Some (JArr (map JStr (toMergeIds data)))"
    unfolding p fld by (simp add: top_def)
  have f12: "field ''uuid_arr_noMergeIds'' p = Some (JArr (map JStr (noMergeIds data)))"
    unfolding p fld by (simp add: top_def)
  have f13: "\<exists>p_attributes. prefixAttributes rt (attributes data) attrs [] = Inr p_attributes \<and>
      field ''obj_attributes'' p = Some (JObj p_attributes)"
    using pa unfolding p fld by (simp add: top_def)
  have f14: "\<forall>others'. \<exists>p'. prefixData rt (data # others') attrs = Inr p' \<and>
      (\<forall>key. key \<noteq> ''obj_arr_segments'' \<longrightarrow> field key p' = field key p)"
  proof (intro allI exI conjI impI)
    fix others' key
    show "prefixData rt (data # others') attrs =
        Inr (JObj (top @ [(''obj_arr_segments'', JArr (map prefixSegment (data # others')))]))"
      by (rule shape)
    assume "key \<noteq> ''obj_arr_segments''"
    then show "field key (JObj (top @ [(''obj_arr_segments'', JArr (map prefixSegment (data # others')))]))
        = field key p"
      unfolding p fld by simp
  qed
  have seg_i: "map prefixSegment (data # others) ! i =
      JObj [(''uuid_segmentId'', JStr (segmentId ((data # others) ! i))),
            (''obj_arr_organizations'',
               JArr (map (\<lambda>organization.
                            JObj [(''uuid_id'', JStr (org_id organization)),
                                  (''string_logo'', org_logo organization),
                                  (''string_displayName'', JStr (org_displayName organization))])
                       (organizations ((data # others) ! i)))),
            (''obj_arr_tags'',
               JArr (map (\<lambda>tag. JObj [(''uuid_id'', JStr (tag_id tag)),
                                       (''string_name'', JStr (tag_name tag))])
                       (tags ((data # others) ! i)))),
            (''string_arr_activeOn'', JArr (map JStr (activeOn ((data # others) ! i)))),
            (''int_activityCount'', activityCount ((data # others) ! i)),
            (''string_arr_activityTypes'', JArr (map JStr (activityTypes ((data # others) ! i)))),
            (''int_activeDaysCount'', activeDaysCount ((data # others) ! i)),
            (''date_lastActive'', lastActive ((data # others) ! i)),
            (''float_averageSentiment'', averageSentiment ((data # others) ! i))]"
    if "i < length (data # others)" for i
  proof -
    have "map prefixSegment (data # others) ! i = prefixSegment ((data # others) ! i)"
      using that by (rule nth_map)
    then show ?thesis
      by (simp only: prefixSegment_def prefixOrganization_def[abs_def] prefixTag_def[abs_def])
  qed
  have f15: "\<exists>segments. field ''obj_arr_segments'' p = Some (JArr segments) \<and>
      length segments = length (data # others) \<and>
      (\<forall>i < length (data # others).
         segments ! i =
           JObj [(''uuid_segmentId'', JStr (segmentId ((data # others) ! i))),
                 (''obj_arr_organizations'',
                    JArr (map (\<lambda>organization.
                                 JObj [(''uuid_id'', JStr (org_id organization)),
                                       (''string_logo'', org_logo organization),
                                       (''string_displayName'',
                                          JStr (org_displayName organization))])
                            (organizations ((data # others) ! i)))),
                 (''obj_arr_tags'',
                    JArr (map (\<lambda>tag. JObj [(''uuid_id'', JStr (tag_id tag)),
                                            (''string_name'', JStr (tag_name tag))])
                            (tags ((data # others) ! i)))),
                 (''string_arr_activeOn'', JArr (map JStr (activeOn ((data # others) ! i)))),
                 (''int_activityCount'', activityCount ((data # others) ! i)),
                 (''string_arr_activityTypes'',
                    JArr (map JStr (activityTypes ((data # others) ! i)))),
                 (''int_activeDaysCount'', activeDaysCount ((data # others) ! i)),
                 (''date_lastActive'', lastActive ((data # others) ! i)),
                 (''float_averageSentiment'', averageSentiment ((data # others) ! i))])"
  proof (intro exI conjI allI impI)
    show "field ''obj_arr_segments'' p = Some (JArr (map prefixSegment (data # others)))"
      unfolding p fld by (simp add: nseg)
    show "length (map prefixSegment (data # others)) = length (data # others)"
      by (rule length_map)
  qed (rule seg_i)
  from f1 f2 f3 f4 f5 f6 f7 f8 f9 f10 f11 f12 f13 f14 f15 show ?thesis
    by (intro conjI)
qed


theorem prefixData_first_snapshot_and_segments_witness:
  "\<exists>p segments.
     prefixData example_runtime
       [example_row ''m1'' ''t1'' ''s1'' ''2023-01-05'' example_bag,
        example_row ''m1'' ''t1'' ''s2'' ''2023-01-05'' []]
       [\<lparr>attr_name = ''isBot'', attr_type = BOOLEAN\<rparr>] = Inr p \<and>
     field ''uuid_memberId'' p = Some (JStr ''m1'') \<and>
     field ''date_joinedAt'' p = Some (JStr ''2023-01-05'') \<and>
     field ''obj_arr_segments'' p = Some (JArr segments) \<and>
     length segments = 2 \<and>
     field ''uuid_segmentId'' (segments ! 0) = Some (JStr ''s1'') \<and>
     field ''uuid_segmentId'' (segments ! 1) = Some (JStr ''s2'')"
proof -
  let ?d = "example_row ''m1'' ''t1'' ''s1'' ''2023-01-05'' example_bag"
  let ?o = "[example_row ''m1'' ''t1'' ''s2'' ''2023-01-05'' []]"
  let ?a = "[\<lparr>attr_name = ''isBot'', attr_type = BOOLEAN\<rparr>]"
  obtain p where P: "prefixData example_runtime (?d # ?o) ?a = Inr p"
    by (simp add: example_row_def example_bag_def)
  note T = prefixData_first_snapshot_and_segments[OF P]
  from T obtain segments where S: "field ''obj_arr_segments'' p = Some (JArr segments)"
    and L: "length segments = length (?d # ?o)"
    and I: "\<forall>i < length (?d # ?o).
              field ''uuid_segmentId'' (segments ! i) = Some (JStr (segmentId ((?d # ?o) ! i)))"
    by fastforce
  from I have "field ''uuid_segmentId'' (segments ! 0) = Some (JStr ''s1'')"
    and "field ''uuid_segmentId'' (segments ! 1) = Some (JStr ''s2'')"
    by (simp_all add: example_row_def)
  moreover from T have "field ''uuid_memberId'' p = Some (JStr ''m1'')"
    and "field ''date_joinedAt'' p = Some (JStr ''2023-01-05'')"
    by (simp_all add: example_row_def)
  ultimately show ?thesis using P S L by auto
qed


lemma flattened_special:
  assumes "prefixData rt (data # others) attrs = Inr p"
    and "distinct (map attr_name attrs)" and "a \<in> set attrs"
    and "map_of (attributes data) (attr_name a) = Some x"
    and "attr_type a = SPECIAL"
  shows "Option.bind (field ''obj_attributes'' p) (field (''string_'' @ attr_name a)) =
           Some (JStr (JSON_stringify rt x))"
    and "Option.bind (field ''obj_attributes'' p) (field (''obj_'' @ attr_name a)) = None"
proof -
  from prefixData_obj_attributes[OF assms(1)] obtain pa
    where pa: "prefixAttributes rt (attributes data) attrs [] = Inr pa"
      and f: "field ''obj_attributes'' p = Some (JObj pa)" by blast
  from prefixAttributes_special[OF pa assms(2-5)] f
  show "Option.bind (field ''obj_attributes'' p) (field (''string_'' @ attr_name a)) =
           Some (JStr (JSON_stringify rt x))"
    and "Option.bind (field ''obj_attributes'' p) (field (''obj_'' @ attr_name a)) = None"
    by simp_all
qed

lemma flattened_nested:
  assumes "prefixData rt (data # others) attrs = Inr p"
    and "distinct (map attr_name attrs)" and "a \<in> set attrs"
    and "map_of (attributes data) (attr_name a) = Some x"
    and "attr_type a \<noteq> SPECIAL"
  shows "\<exists>defValue prefix. js_get x ''default'' = Inr defValue \<and>
           attributeTypeToOpenSearchPrefix rt defValue (attr_type a) = Inr prefix \<and>
           Option.bind (field ''obj_attributes'' p) (field (''obj_'' @ attr_name a)) =
             Some (JObj (map (\<lambda>(key, v). (prefix @ ''_'' @ key, v)) (own_entries x)))"
    and "Option.bind (field ''obj_attributes'' p) (field (''string_'' @ attr_name a)) = None"
proof -
  from prefixData_obj_attributes[OF assms(1)] obtain pa
    where pa: "prefixAttributes rt (attributes data) attrs [] = Inr pa"
      and f: "field ''obj_attributes'' p = Some (JObj pa)" by blast
  from prefixAttributes_nested(1)[OF pa assms(2-5)] f
  show "\<exists>defValue prefix. js_get x ''default'' = Inr defValue \<and>
           attributeTypeToOpenSearchPrefix rt defValue (attr_type a) = Inr prefix \<and>
           Option.bind (field ''obj_attributes'' p) (field (''obj_'' @ attr_name a)) =
             Some (JObj (map (\<lambda>(key, v). (prefix @ ''_'' @ key, v)) (own_entries x)))"
    by (simp add: prefixKeys_map)
  from prefixAttributes_nested(2)[OF pa assms(2-5)] f
  show "Option.bind (field ''obj_attributes'' p) (field (''string_'' @ attr_name a)) = None"
    by simp
qed

text \<open>
  C5. For an attribute of the schema that the first snapshot's bag holds (the names of
  the schema being distinct): a SPECIAL attribute gives the single field
  \<open>string_<name>\<close> holding the serialized value, and no \<open>obj_<name>\<close>; any other
  attribute gives the object \<open>obj_<name>\<close> with one sub-field per own key of the bag's
  entry, in order, each named with the prefix computed from the entry's "default" value
  and the declared type, and no \<open>string_<name>\<close>.
\<close>

theorem attribute_flattening_shape:
  assumes "prefixData rt (data # others) attrs = Inr p"
    and "distinct (map attr_name attrs)"
    and "a \<in> set attrs"
    and "map_of (attributes data) (attr_name a) = Some x"
  shows "if attr_type a = SPECIAL then
           Option.bind (field ''obj_attributes'' p) (field (''string_'' @ attr_name a)) =
             Some (JStr (JSON_stringify rt x)) \<and>
           Option.bind (field ''obj_attributes'' p) (field (''obj_'' @ attr_name a)) = None
         else
           (\<exists>defValue prefix.
              js_get x ''default'' = Inr defValue \<and>
              attributeTypeToOpenSearchPrefix rt defValue (attr_type a) = Inr prefix \<and>
              Option.bind (field ''obj_attributes'' p) (field (''obj_'' @ attr_name a)) =
                Some (JObj (map (\<lambda>(key, v). (prefix @ ''_'' @ key, v)) (own_entries x)))) \<and>
           Option.bind (field ''obj_attributes'' p) (field (''string_'' @ attr_name a)) = None"
proof (cases "attr_type a = SPECIAL")
  case True
  with flattened_special[OF assms True] show ?thesis by simp
next
  case False
  with flattened_nested[OF assms False] show ?thesis by simp
qed



lemma five_and_half_not_int: "(11 / 2 :: rat) \<notin> \<int>"
proof
  assume "(11 / 2 :: rat) \<in> \<int>"
  then obtain i :: int where "(11 / 2 :: rat) = of_int i" by (auto elim: Ints_cases)
  then have "(11 :: rat) = of_int (2 * i)" by simp
  then have "(of_int 11 :: rat) = of_int (2 * i)" by simp
  then have "(11 :: int) = 2 * i" by (simp only: of_int_eq_iff)
  then show False by presburger
qed

lemma example_flattens:
  "\<exists>p. prefixData example_runtime [example_row ''m1'' ''t1'' ''s1'' ''2023-01-05'' example_bag]
         example_schema = Inr p"
  by (simp add: example_row_def example_bag_def example_schema_def prefixKeys_def
        js_property_def Object_prototype_def)


theorem attribute_flattening_shape_witness:
  "distinct (map attr_name example_schema) \<and>
   \<lparr>attr_name = ''isBot'', attr_type = BOOLEAN\<rparr> \<in> set example_schema \<and>
   \<lparr>attr_name = ''syncRemote'', attr_type = SPECIAL\<rparr> \<in> set example_schema \<and>
   (\<exists>p. prefixData example_runtime [example_row ''m1'' ''t1'' ''s1'' ''2023-01-05'' example_bag]
          example_schema = Inr p \<and>
        Option.bind (field ''obj_attributes'' p) (field ''obj_isBot'') =
          Some (JObj [(''bool_default'', JBool False), (''bool_github'', JBool False)]) \<and>
        Option.bind (field ''obj_attributes'' p) (field ''string_isBot'') = None \<and>
        Option.bind (field ''obj_attributes'' p) (field ''string_syncRemote'') =
          Some (JStr ''[json]'') \<and>
        Option.bind (field ''obj_attributes'' p) (field ''obj_syncRemote'') = None)"
proof -
  let ?data = "example_row ''m1'' ''t1'' ''s1'' ''2023-01-05'' example_bag"
  let ?b = "\<lparr>attr_name = ''isBot'', attr_type = BOOLEAN\<rparr>"
  let ?s = "\<lparr>attr_name = ''syncRemote'', attr_type = SPECIAL\<rparr>"
  let ?xb = "JObj [(''default'', JBool False), (''github'', JBool False)]"
  let ?xs = "JObj [(''hubspot'', JBool True)]"
  from example_flattens obtain p where P: "prefixData example_runtime [?data] example_schema = Inr p"
    by blast
  have d: "distinct (map attr_name example_schema)" by (simp add: example_schema_def)
  have b: "?b \<in> set example_schema" and s: "?s \<in> set example_schema"
    by (simp_all add: example_schema_def)
  have bb: "map_of (attributes ?data) (attr_name ?b) = Some ?xb"
    and bs: "map_of (attributes ?data) (attr_name ?s) = Some ?xs"
    by (simp_all add: example_row_def example_bag_def)
  from attribute_flattening_shape[OF P d b bb]
  have "Option.bind (field ''obj_attributes'' p) (field ''obj_isBot'') =
          Some (JObj [(''bool_default'', JBool False), (''bool_github'', JBool False)])"
    and "Option.bind (field ''obj_attributes'' p) (field ''string_isBot'') = None"
    by auto
  moreover from attribute_flattening_shape[OF P d s bs]
  have "Option.bind (field ''obj_attributes'' p) (field ''string_syncRemote'') = Some (JStr ''[json]'')"
    and "Option.bind (field ''obj_attributes'' p) (field ''obj_syncRemote'') = None"
    by (simp_all add: example_runtime_def)
  ultimately show ?thesis using P d b s by blast
qed


lemma js_get_not_null: "x \<noteq> JNull \<Longrightarrow> \<exists>d. js_get x key = Inr d"
  by (cases x) auto

lemma number_step:
  assumes "attr_type a = NUMBER" and "map_of bag (attr_name a) = Some x"
    and "js_get x ''default'' = Inr defValue"
  shows "prefixAttributes rt bag (a # rest) acc =
          (case ToNumber rt defValue of
             Inl e \<Rightarrow> Inl e
           | Inr n \<Rightarrow>
               prefixAttributes rt bag rest
                 (AList.update (''obj_'' @ attr_name a)
                    (JObj (map (\<lambda>(key, v).
                                  ((if js_strict_equals (js_rem n (Finite 1)) (Finite 0)
                                    then ''int'' else ''float'') @ ''_'' @ key, v))
                             (own_entries x)))
                    acc))"
  using assms by (cases "ToNumber rt defValue") (simp_all add: prefixKeys_map)

lemma ToNumber_primitive:
  "(\<forall>xs. defValue \<noteq> Some (JArr xs)) \<Longrightarrow> (\<forall>kvs. defValue \<noteq> Some (JObj kvs)) \<Longrightarrow>
   \<exists>n. ToNumber rt defValue = Inr n"
proof (cases defValue)
  case None
  then show ?thesis by simp
next
  case (Some v)
  assume "\<forall>xs. defValue \<noteq> Some (JArr xs)" "\<forall>kvs. defValue \<noteq> Some (JObj kvs)"
  with Some show ?thesis by (cases v) simp_all
qed

text \<open>
  C10 (as amended). For a NUMBER attribute whose name the bag holds with an entry that is
  not \<^verbatim>\<open>null\<close>, the step of the loop reads the entry's "default" and decides by the
  test \<^verbatim>\<open>default % 1 === 0\<close> on its numeric coercion. The step raises only what the
  coercion raises, and the coercion raises for no absent "default", \<^verbatim>\<open>null\<close>, boolean,
  number or string; otherwise the loop goes on with \<open>obj_<name>\<close> holding every sub-key
  of the entry, under \<open>int_\<close> when the test holds and under \<open>float_\<close> when it does not.
  The test fails for an absent "default" and for a value that coerces to \<^verbatim>\<open>NaN\<close> or an
  infinity; it holds for \<^verbatim>\<open>null\<close>, \<^verbatim>\<open>true\<close> and \<^verbatim>\<open>false\<close>, which coerce to 0, 1 and 0;
  for a number it holds exactly when the number is an integer. An entry that is
  \<^verbatim>\<open>null\<close> raises a \<^verbatim>\<open>TypeError\<close> at the read of "default", and a name that the bag
  only inherits gives the empty \<open>obj_<name>\<close>. In a document that flattening returns
  (the names of the schema being distinct) \<open>obj_<name>\<close> of an own entry is as the step
  built it.
\<close>

theorem number_prefix_decision:
  assumes "attr_type a = NUMBER"
  shows "(map_of bag (attr_name a) = Some JNull \<longrightarrow>
            prefixAttributes rt bag (a # rest) acc = Inl TypeError) \<and>
         (\<forall>x. map_of bag (attr_name a) = Some x \<and> x \<noteq> JNull \<longrightarrow>
            (\<exists>defValue. js_get x ''default'' = Inr defValue \<and>
               prefixAttributes rt bag (a # rest) acc =
                 (case ToNumber rt defValue of
                    Inl e \<Rightarrow> Inl e
                  | Inr n \<Rightarrow>
                      prefixAttributes rt bag rest
                        (AList.update (''obj_'' @ attr_name a)
                           (JObj (map (\<lambda>(key, v).
                                    ((if js_strict_equals (js_rem n (Finite 1)) (Finite 0)
                                      then ''int'' else ''float'') @ ''_'' @ key, v))
                                    (own_entries x)))
                           acc)))) \<and>
         (\<forall>m. js_property bag (attr_name a) = Some (Inherited m) \<longrightarrow>
            prefixAttributes rt bag (a # rest) acc =
              prefixAttributes rt bag rest (AList.update (''obj_'' @ attr_name a) (JObj []) acc)) \<and>
         (\<forall>defValue. (\<forall>xs. defValue \<noteq> Some (JArr xs)) \<and> (\<forall>kvs. defValue \<noteq> Some (JObj kvs)) \<longrightarrow>
            (\<exists>n. ToNumber rt defValue = Inr n)) \<and>
         (\<forall>defValue n. ToNumber rt defValue = Inr n \<and> (defValue = None \<or> n = NaN \<or> n = Infinite) \<longrightarrow>
            \<not> js_strict_equals (js_rem n (Finite 1)) (Finite 0)) \<and>
         (\<forall>defValue n. ToNumber rt defValue = Inr n \<and>
                       (defValue = Some JNull \<or> (\<exists>b. defValue = Some (JBool b))) \<longrightarrow>
            js_strict_equals (js_rem n (Finite 1)) (Finite 0)) \<and>
         (\<forall>q n. ToNumber rt (Some (JNum q)) = Inr n \<longrightarrow>
            (js_strict_equals (js_rem n (Finite 1)) (Finite 0) \<longleftrightarrow> q \<in> \<int>)) \<and>
         (\<forall>data others attrs p x.
            prefixData rt (data # others) attrs = Inr p \<and> distinct (map attr_name attrs) \<and>
            a \<in> set attrs \<and> map_of (attributes data) (attr_name a) = Some x \<longrightarrow>
            (\<exists>defValue n.
               js_get x ''default'' = Inr defValue \<and> ToNumber rt defValue = Inr n \<and>
               Option.bind (field ''obj_attributes'' p) (field (''obj_'' @ attr_name a)) =
                 Some (JObj (map (\<lambda>(key, v).
                                    ((if js_strict_equals (js_rem n (Finite 1)) (Finite 0)
                                      then ''int'' else ''float'') @ ''_'' @ key, v))
                               (own_entries x)))))"
proof -
  have ns: "attr_type a \<noteq> SPECIAL" using assms by simp
  have c1: "map_of bag (attr_name a) = Some JNull \<longrightarrow>
            prefixAttributes rt bag (a # rest) acc = Inl TypeError"
    using ns by simp
  have c2: "\<forall>x. map_of bag (attr_name a) = Some x \<and> x \<noteq> JNull \<longrightarrow>
            (\<exists>defValue. js_get x ''default'' = Inr defValue \<and>
               prefixAttributes rt bag (a # rest) acc =
                 (case ToNumber rt defValue of
                    Inl e \<Rightarrow> Inl e
                  | Inr n \<Rightarrow>
                      prefixAttributes rt bag rest
                        (AList.update (''obj_'' @ attr_name a)
                           (JObj (map (\<lambda>(key, v).
                                    ((if js_strict_equals (js_rem n (Finite 1)) (Finite 0)
                                      then ''int'' else ''float'') @ ''_'' @ key, v))
                                    (own_entries x)))
                           acc)))"
  proof (intro allI impI)
    fix x assume h: "map_of bag (attr_name a) = Some x \<and> x \<noteq> JNull"
    with js_get_not_null[of x "''default''"] obtain defValue
      where d: "js_get x ''default'' = Inr defValue" by blast
    from number_step[OF assms _ d, of bag rt rest acc] h d
    show "\<exists>defValue. js_get x ''default'' = Inr defValue \<and>
               prefixAttributes rt bag (a # rest) acc =
                 (case ToNumber rt defValue of
                    Inl e \<Rightarrow> Inl e
                  | Inr n \<Rightarrow>
                      prefixAttributes rt bag rest
                        (AList.update (''obj_'' @ attr_name a)
                           (JObj (map (\<lambda>(key, v).
                                    ((if js_strict_equals (js_rem n (Finite 1)) (Finite 0)
                                      then ''int'' else ''float'') @ ''_'' @ key, v))
                                    (own_entries x)))
                           acc))"
      by blast
  qed
  have c3: "\<forall>m. js_property bag (attr_name a) = Some (Inherited m) \<longrightarrow>
            prefixAttributes rt bag (a # rest) acc =
              prefixAttributes rt bag rest (AList.update (''obj_'' @ attr_name a) (JObj []) acc)"
    using assms by simp
  have c4: "\<forall>defValue. (\<forall>xs. defValue \<noteq> Some (JArr xs)) \<and> (\<forall>kvs. defValue \<noteq> Some (JObj kvs)) \<longrightarrow>
            (\<exists>n. ToNumber rt defValue = Inr n)"
    using ToNumber_primitive by blast
  have c5: "\<forall>defValue n. ToNumber rt defValue = Inr n \<and> (defValue = None \<or> n = NaN \<or> n = Infinite) \<longrightarrow>
            \<not> js_strict_equals (js_rem n (Finite 1)) (Finite 0)"
    by auto
  have c6: "\<forall>defValue n. ToNumber rt defValue = Inr n \<and>
                       (defValue = Some JNull \<or> (\<exists>b. defValue = Some (JBool b))) \<longrightarrow>
            js_strict_equals (js_rem n (Finite 1)) (Finite 0)"
    by (auto simp: js_trunc_def)
  have c7: "\<forall>q n. ToNumber rt (Some (JNum q)) = Inr n \<longrightarrow>
            (js_strict_equals (js_rem n (Finite 1)) (Finite 0) \<longleftrightarrow> q \<in> \<int>)"
    using js_mod1_iff by (auto simp del: js_rem.simps js_strict_equals.simps)
  have c8: "\<forall>data others attrs p x.
            prefixData rt (data # others) attrs = Inr p \<and> distinct (map attr_name attrs) \<and>
            a \<in> set attrs \<and> map_of (attributes data) (attr_name a) = Some x \<longrightarrow>
            (\<exists>defValue n.
               js_get x ''default'' = Inr defValue \<and> ToNumber rt defValue = Inr n \<and>
               Option.bind (field ''obj_attributes'' p) (field (''obj_'' @ attr_name a)) =
                 Some (JObj (map (\<lambda>(key, v).
                                    ((if js_strict_equals (js_rem n (Finite 1)) (Finite 0)
                                      then ''int'' else ''float'') @ ''_'' @ key, v))
                               (own_entries x))))"
  proof (intro allI impI)
    fix data :: IDbMemberSyncData and others attrs p x
    assume h: "prefixData rt (data # others) attrs = Inr p \<and> distinct (map attr_name attrs) \<and>
            a \<in> set attrs \<and> map_of (attributes data) (attr_name a) = Some x"
    then have h1: "prefixData rt (data # others) attrs = Inr p"
      and h2: "distinct (map attr_name attrs)" and h3: "a \<in> set attrs"
      and h4: "map_of (attributes data) (attr_name a) = Some x" by blast+
    from flattened_nested(1)[OF h1 h2 h3 h4 ns] assms obtain defValue prefix
      where dv: "js_get x ''default'' = Inr defValue"
        and pf: "attributeTypeToOpenSearchPrefix rt defValue NUMBER = Inr prefix"
        and v: "Option.bind (field ''obj_attributes'' p) (field (''obj_'' @ attr_name a)) =
               Some (JObj (map (\<lambda>(key, v). (prefix @ ''_'' @ key, v)) (own_entries x)))"
      by auto
    from pf obtain n where n: "ToNumber rt defValue = Inr n"
      and pn: "prefix = (if js_strict_equals (js_rem n (Finite 1)) (Finite 0) then ''int'' else ''float'')"
      by (auto split: sum.splits if_splits)
    from dv n v pn
    show "\<exists>defValue n.
               js_get x ''default'' = Inr defValue \<and> ToNumber rt defValue = Inr n \<and>
               Option.bind (field ''obj_attributes'' p) (field (''obj_'' @ attr_name a)) =
                 Some (JObj (map (\<lambda>(key, v).
                                    ((if js_strict_equals (js_rem n (Finite 1)) (Finite 0)
                                      then ''int'' else ''float'') @ ''_'' @ key, v))
                               (own_entries x)))"
      by blast
  qed
  from c1 c2 c3 c4 c5 c6 c7 c8 show ?thesis by (intro conjI)
qed

theorem number_prefix_decision_witness:
  "prefixAttributes example_runtime [(''age'', JObj [(''github'', JNum 3)])]
     [\<lparr>attr_name = ''age'', attr_type = NUMBER\<rparr>] []
   = Inr [(''obj_age'', JObj [(''float_github'', JNum 3)])] \<and>
   prefixAttributes example_runtime [(''age'', JObj [(''default'', JBool True)])]
     [\<lparr>attr_name = ''age'', attr_type = NUMBER\<rparr>] []
   = Inr [(''obj_age'', JObj [(''int_default'', JBool True)])] \<and>
   prefixAttributes example_runtime [(''age'', JNull)]
     [\<lparr>attr_name = ''age'', attr_type = NUMBER\<rparr>] []
   = Inl TypeError \<and>
   prefixAttributes example_runtime []
     [\<lparr>attr_name = ''valueOf'', attr_type = NUMBER\<rparr>] []
   = Inr [(''obj_valueOf'', JObj [])] \<and>
   distinct (map attr_name example_schema) \<and>
   \<lparr>attr_name = ''age'', attr_type = NUMBER\<rparr> \<in> set example_schema \<and>
   map_of (attributes (example_row ''m1'' ''t1'' ''s1'' ''2023-01-05'' example_bag)) ''age'' =
     Some (JObj [(''default'', JNull), (''github'', JNum 3)]) \<and>
   (\<exists>p. prefixData example_runtime [example_row ''m1'' ''t1'' ''s1'' ''2023-01-05'' example_bag]
          example_schema = Inr p \<and>
        Option.bind (field ''obj_attributes'' p) (field ''obj_age'') =
          Some (JObj [(''int_default'', JNull), (''int_github'', JNum 3)])) \<and>
   (\<exists>n. ToNumber example_runtime (Some (JStr ''abc'')) = Inr n) \<and>
   ToNumber example_runtime None = Inr NaN \<and>
   \<not> js_strict_equals (js_rem NaN (Finite 1)) (Finite 0) \<and>
   ToNumber example_runtime (Some JNull) = Inr (Finite 0) \<and>
   js_strict_equals (js_rem (Finite 0) (Finite 1)) (Finite 0) \<and>
   js_strict_equals (js_rem (Finite 5) (Finite 1)) (Finite 0) \<and>
   \<not> js_strict_equals (js_rem (Finite (11 / 2)) (Finite 1)) (Finite 0)"
proof -
  let ?a = "\<lparr>attr_name = ''age'', attr_type = NUMBER\<rparr>"
  let ?v = "\<lparr>attr_name = ''valueOf'', attr_type = NUMBER\<rparr>"
  let ?nodef = "JObj [(''github'', JNum 3)]"
  let ?bool = "JObj [(''default'', JBool True)]"
  let ?data = "example_row ''m1'' ''t1'' ''s1'' ''2023-01-05'' example_bag"
  let ?x = "JObj [(''default'', JNull), (''github'', JNum 3)]"
  have ta: "attr_type ?a = NUMBER" and tv: "attr_type ?v = NUMBER" by simp_all
  note T = number_prefix_decision[OF ta, where rt = example_runtime and rest = "[]" and acc = "[]"]
  have b1: "map_of [(''age'', ?nodef)] (attr_name ?a) = Some ?nodef \<and> ?nodef \<noteq> JNull" by simp
  from T[where bag = "[(''age'', ?nodef)]", THEN conjunct2, THEN conjunct1, rule_format, OF b1]
  obtain d1 where g1: "js_get ?nodef ''default'' = Inr d1"
    and s1: "prefixAttributes example_runtime [(''age'', ?nodef)] [?a] [] =
          (case ToNumber example_runtime d1 of
             Inl e \<Rightarrow> Inl e
           | Inr n \<Rightarrow>
               prefixAttributes example_runtime [(''age'', ?nodef)] []
                 (AList.update (''obj_'' @ attr_name ?a)
                    (JObj (map (\<lambda>(key, v).
                                  ((if js_strict_equals (js_rem n (Finite 1)) (Finite 0)
                                    then ''int'' else ''float'') @ ''_'' @ key, v))
                             (own_entries ?nodef)))
                    []))"
    by blast
  from g1 have "d1 = None" by simp
  with s1 have r1: "prefixAttributes example_runtime [(''age'', ?nodef)] [?a] [] =
      Inr [(''obj_age'', JObj [(''float_github'', JNum 3)])]"
    by (simp del: prefixAttributes.simps add: prefixAttributes.simps(1))
  have b2: "map_of [(''age'', ?bool)] (attr_name ?a) = Some ?bool \<and> ?bool \<noteq> JNull" by simp
  from T[where bag = "[(''age'', ?bool)]", THEN conjunct2, THEN conjunct1, rule_format, OF b2]
  obtain d2 where g2: "js_get ?bool ''default'' = Inr d2"
    and s2: "prefixAttributes example_runtime [(''age'', ?bool)] [?a] [] =
          (case ToNumber example_runtime d2 of
             Inl e \<Rightarrow> Inl e
           | Inr n \<Rightarrow>
               prefixAttributes example_runtime [(''age'', ?bool)] []
                 (AList.update (''obj_'' @ attr_name ?a)
                    (JObj (map (\<lambda>(key, v).
                                  ((if js_strict_equals (js_rem n (Finite 1)) (Finite 0)
                                    then ''int'' else ''float'') @ ''_'' @ key, v))
                             (own_entries ?bool)))
                    []))"
    by blast
  from g2 have "d2 = Some (JBool True)" by simp
  with s2 have r2: "prefixAttributes example_runtime [(''age'', ?bool)] [?a] [] =
      Inr [(''obj_age'', JObj [(''int_default'', JBool True)])]"
    by (simp del: prefixAttributes.simps add: prefixAttributes.simps(1) js_trunc_def)
  have b3: "map_of [(''age'', JNull)] (attr_name ?a) = Some JNull" by simp
  from T[where bag = "[(''age'', JNull)]", THEN conjunct1, rule_format, OF b3]
  have r3: "prefixAttributes example_runtime [(''age'', JNull)] [?a] [] = Inl TypeError" .
  have b4: "js_property [] (attr_name ?v) = Some (Inherited Method)"
    by (simp add: js_property_def Object_prototype_def)
  from number_prefix_decision[OF tv, where rt = example_runtime and rest = "[]" and acc = "[]"
         and bag = "[]", THEN conjunct2, THEN conjunct2, THEN conjunct1, rule_format, OF b4]
  have r4: "prefixAttributes example_runtime [] [?v] [] = Inr [(''obj_valueOf'', JObj [])]"
    by (simp del: prefixAttributes.simps add: prefixAttributes.simps(1))
  from example_flattens obtain p where P: "prefixData example_runtime [?data] example_schema = Inr p"
    by blast
  have d: "distinct (map attr_name example_schema)" by (simp add: example_schema_def)
  have a: "?a \<in> set example_schema" by (simp add: example_schema_def)
  have b: "map_of (attributes ?data) ''age'' = Some ?x"
    by (simp add: example_row_def example_bag_def)
  have h: "prefixData example_runtime [?data] example_schema = Inr p \<and>
      distinct (map attr_name example_schema) \<and> ?a \<in> set example_schema \<and>
      map_of (attributes ?data) (attr_name ?a) = Some ?x"
    using P d a b by simp
  from T[where bag = "[]", THEN conjunct2, THEN conjunct2, THEN conjunct2, THEN conjunct2,
         THEN conjunct2, THEN conjunct2, THEN conjunct2, rule_format, OF h]
  obtain defValue n where dv: "js_get ?x ''default'' = Inr defValue"
    and n: "ToNumber example_runtime defValue = Inr n"
    and v: "Option.bind (field ''obj_attributes'' p) (field (''obj_'' @ attr_name ?a)) =
             Some (JObj (map (\<lambda>(key, v).
                                ((if js_strict_equals (js_rem n (Finite 1)) (Finite 0)
                                  then ''int'' else ''float'') @ ''_'' @ key, v))
                           (own_entries ?x)))"
    by blast
  from dv have "defValue = Some JNull" by simp
  with n have "n = Finite 0" by simp
  with v have r5: "Option.bind (field ''obj_attributes'' p) (field ''obj_age'') =
          Some (JObj [(''int_default'', JNull), (''int_github'', JNum 3)])"
    by (simp add: js_trunc_def)
  have k4: "(\<forall>xs. Some (JStr ''abc'') \<noteq> Some (JArr xs)) \<and>
      (\<forall>kvs. Some (JStr ''abc'') \<noteq> Some (JObj kvs))" by simp
  from T[where bag = "[]", THEN conjunct2, THEN conjunct2, THEN conjunct2, THEN conjunct1,
         rule_format, OF k4]
  have r6: "\<exists>n. ToNumber example_runtime (Some (JStr ''abc'')) = Inr n" .
  have n5: "ToNumber example_runtime None = Inr NaN" by simp
  then have k5: "ToNumber example_runtime None = Inr NaN \<and>
      (None = (None :: json option) \<or> NaN = NaN \<or> NaN = Infinite)" by simp
  from T[where bag = "[]", THEN conjunct2, THEN conjunct2, THEN conjunct2, THEN conjunct2,
         THEN conjunct1, rule_format, OF k5]
  have r7: "\<not> js_strict_equals (js_rem NaN (Finite 1)) (Finite 0)" .
  have n6: "ToNumber example_runtime (Some JNull) = Inr (Finite 0)" by simp
  then have k6: "ToNumber example_runtime (Some JNull) = Inr (Finite 0) \<and>
      (Some JNull = Some JNull \<or> (\<exists>b. Some JNull = Some (JBool b)))" by simp
  from T[where bag = "[]", THEN conjunct2, THEN conjunct2, THEN conjunct2, THEN conjunct2,
         THEN conjunct2, THEN conjunct1, rule_format, OF k6]
  have r8: "js_strict_equals (js_rem (Finite 0) (Finite 1)) (Finite 0)" .
  note c7 = T[where bag = "[]", THEN conjunct2, THEN conjunct2, THEN conjunct2, THEN conjunct2,
         THEN conjunct2, THEN conjunct2, THEN conjunct1, rule_format]
  have "ToNumber example_runtime (Some (JNum 5)) = Inr (Finite 5)" by simp
  from c7[OF this] have r9: "js_strict_equals (js_rem (Finite 5) (Finite 1)) (Finite 0)"
    by (simp del: js_rem.simps js_strict_equals.simps)
  have "ToNumber example_runtime (Some (JNum (11 / 2))) = Inr (Finite (11 / 2))" by simp
  from c7[OF this] five_and_half_not_int
  have r10: "\<not> js_strict_equals (js_rem (Finite (11 / 2)) (Finite 1)) (Finite 0)"
    by (simp del: js_rem.simps js_strict_equals.simps)
  from r1 r2 r3 r4 d a b P r5 have first:
    "prefixAttributes example_runtime [(''age'', JObj [(''github'', JNum 3)])]
       [\<lparr>attr_name = ''age'', attr_type = NUMBER\<rparr>] []
     = Inr [(''obj_age'', JObj [(''float_github'', JNum 3)])] \<and>
     prefixAttributes example_runtime [(''age'', JObj [(''default'', JBool True)])]
       [\<lparr>attr_name = ''age'', attr_type = NUMBER\<rparr>] []
     = Inr [(''obj_age'', JObj [(''int_default'', JBool True)])] \<and>
     prefixAttributes example_runtime [(''age'', JNull)]
       [\<lparr>attr_name = ''age'', attr_type = NUMBER\<rparr>] []
     = Inl TypeError \<and>
     prefixAttributes example_runtime []
       [\<lparr>attr_name = ''valueOf'', attr_type = NUMBER\<rparr>] []
     = Inr [(''obj_valueOf'', JObj [])] \<and>
     distinct (map attr_name example_schema) \<and>
     \<lparr>attr_name = ''age'', attr_type = NUMBER\<rparr> \<in> set example_schema \<and>
     map_of (attributes (example_row ''m1'' ''t1'' ''s1'' ''2023-01-05'' example_bag)) ''age'' =
       Some (JObj [(''default'', JNull), (''github'', JNum 3)]) \<and>
     (\<exists>p. prefixData example_runtime [example_row ''m1'' ''t1'' ''s1'' ''2023-01-05'' example_bag]
            example_schema = Inr p \<and>
          Option.bind (field ''obj_attributes'' p) (field ''obj_age'') =
            Some (JObj [(''int_default'', JNull), (''int_github'', JNum 3)]))"
    by blast
  from first r6 n5 r7 n6 r8 r9 r10 show ?thesis by (simp only: simp_thms)
qed

text \<open>
  C10 (counterexample). A NUMBER attribute whose "default" is \<^verbatim>\<open>null\<close>, which is not a
  number, is flattened with the prefix \<open>int_\<close>, not \<open>float_\<close>.
\<close>

theorem number_default_null_counterexample:
  "prefixAttributes example_runtime
     [(''age'', JObj [(''default'', JNull), (''github'', JNum 3)])]
     [\<lparr>attr_name = ''age'', attr_type = NUMBER\<rparr>] []
   = Inr [(''obj_age'', JObj [(''int_default'', JNull), (''int_github'', JNum 3)])]"
  by (simp add: prefixKeys_def js_trunc_def)

lemma prefixAttributes_not_in:
  "\<not> js_in (attr_name a) bag \<Longrightarrow>
   prefixAttributes rt bag (pre @ a # post) acc = prefixAttributes rt bag (pre @ post) acc"
  by (cases "prefixAttributes rt bag pre acc") (simp_all add: prefixAttributes_append js_in_def)

lemma js_in_cases:
  assumes "js_in key obj"
  obtains (null) "map_of obj key = Some JNull"
    | (own) x where "map_of obj key = Some x" and "x \<noteq> JNull"
    | (inherited) m where "js_property obj key = Some (Inherited m)"
proof -
  from assms obtain pr where pr: "js_property obj key = Some pr" by (auto simp: js_in_def)
  show thesis
  proof (cases pr)
    case (Own x)
    with pr have "map_of obj key = Some x" by (simp add: js_property_Own_iff)
    then show ?thesis using null own by (cases "x = JNull") auto
  next
    case (Inherited m)
    with pr show ?thesis using inherited by simp
  qed
qed

lemma unlisted_step:
  assumes "attr_type a = Unlisted t" and "js_in (attr_name a) bag"
  shows "prefixAttributes rt bag (a # post) acc =
           Inl (if map_of bag (attr_name a) = Some JNull then TypeError
                else Error (''Could not map attribute type: '' @ t @ '' to OpenSearch type!''))"
  using assms(2)
proof (cases rule: js_in_cases)
  case null
  with assms(1) show ?thesis by simp
next
  case (own x)
  from js_get_not_null[OF own(2), of "''default''"] obtain d where "js_get x ''default'' = Inr d"
    by blast
  with own assms(1) show ?thesis by simp
next
  case (inherited m)
  then have "map_of bag (attr_name a) \<noteq> Some JNull"
    by (auto simp: js_property_def split: option.splits)
  with inherited assms(1) show ?thesis by simp
qed

text \<open>
  C3 (as amended). A definition of a type outside the enumeration is reached only when its
  name is in the first snapshot's bag, as an own key or as a name that every object
  inherits. Then flattening produces no document: it raises the error of an earlier
  definition if one raises, and otherwise a \<^verbatim>\<open>TypeError\<close> when the bag's entry for the
  name is \<^verbatim>\<open>null\<close> and the mapping error of the type in every other case; and
  \<^verbatim>\<open>syncMember\<close> passes the error on, after its two reads, without a write to the index
  or a mark. When the name is not in the bag the definition has no effect: flattening gives
  what it gives for the schema without the definition.
\<close>

theorem unlisted_type_reached_iff_in_bag:
  assumes "attrs = pre @ a # post" and "attr_type a = Unlisted t"
  shows "(js_in (attr_name a) (attributes data) \<longrightarrow>
            (\<exists>e. prefixData rt (data # others) attrs = Inl e) \<and>
            (\<forall>e. prefixAttributes rt (attributes data) pre [] = Inl e \<longrightarrow>
               prefixData rt (data # others) attrs = Inl e) \<and>
            (\<forall>acc. prefixAttributes rt (attributes data) pre [] = Inr acc \<longrightarrow>
               prefixData rt (data # others) attrs =
                 Inl (if map_of (attributes data) (attr_name a) = Some JNull then TypeError
                      else Error (''Could not map attribute type: '' @ t @
                                  '' to OpenSearch type!''))) \<and>
            (\<forall>S memberId retries st w1 w2.
               runtime S = rt \<and>
               getMemberData (memberRepo S) [memberId] (world st) = (Inr (data # others), w1) \<and>
               getTenantMemberAttributes (memberRepo S) (member_tenantId data) w1 = (Inr attrs, w2)
               \<longrightarrow>
               (\<exists>e. prefixData rt (data # others) attrs = Inl e \<and>
                    syncMember S memberId retries st =
                      (Threw e,
                       \<lparr>world = w2,
                        calls = calls st @
                          [(GetMemberData [memberId], Resolved),
                           (GetTenantMemberAttributes (member_tenantId data), Resolved)]\<rparr>)))) \<and>
         (\<not> js_in (attr_name a) (attributes data) \<longrightarrow>
            prefixData rt (data # others) attrs = prefixData rt (data # others) (pre @ post))"
proof (intro conjI impI allI)
  assume nin: "\<not> js_in (attr_name a) (attributes data)"
  show "prefixData rt (data # others) attrs = prefixData rt (data # others) (pre @ post)"
    unfolding assms(1) by (simp add: prefixAttributes_not_in[OF nin])
next
  fix e
  assume "prefixAttributes rt (attributes data) pre [] = Inl e"
  then show "prefixData rt (data # others) attrs = Inl e"
    unfolding assms(1) by (simp add: prefixAttributes_append)
next
  fix acc
  assume "js_in (attr_name a) (attributes data)"
    and "prefixAttributes rt (attributes data) pre [] = Inr acc"
  then show "prefixData rt (data # others) attrs =
                 Inl (if map_of (attributes data) (attr_name a) = Some JNull then TypeError
                      else Error (''Could not map attribute type: '' @ t @
                                  '' to OpenSearch type!''))"
    unfolding assms(1)
    by (simp add: prefixAttributes_append unlisted_step[OF assms(2)] del: prefixAttributes.simps)
next
  assume inb: "js_in (attr_name a) (attributes data)"
  show ex: "\<exists>e. prefixData rt (data # others) attrs = Inl e"
  proof (cases "prefixAttributes rt (attributes data) pre []")
    case (Inl e)
    then show ?thesis unfolding assms(1) by (simp add: prefixAttributes_append)
  next
    case (Inr acc)
    then show ?thesis unfolding assms(1)
      by (simp add: prefixAttributes_append unlisted_step[OF assms(2) inb]
               del: prefixAttributes.simps)
  qed
  fix S :: "'w MemberSyncService" and memberId retries and st :: "'w state" and w1 w2
  assume h: "runtime S = rt \<and>
            getMemberData (memberRepo S) [memberId] (world st) = (Inr (data # others), w1) \<and>
            getTenantMemberAttributes (memberRepo S) (member_tenantId data) w1 = (Inr attrs, w2)"
  from ex obtain e where pd: "prefixData rt (data # others) attrs = Inl e" by blast
  have "syncMember S memberId retries st =
                   (Threw e,
                    \<lparr>world = w2,
                     calls = calls st @
                       [(GetMemberData [memberId], Resolved),
                        (GetTenantMemberAttributes (member_tenantId data), Resolved)]\<rparr>)"
    using h pd by (subst syncMember.simps) (simp add: await_def)
  with pd show "\<exists>e. prefixData rt (data # others) attrs = Inl e \<and>
                 syncMember S memberId retries st =
                   (Threw e,
                    \<lparr>world = w2,
                     calls = calls st @
                       [(GetMemberData [memberId], Resolved),
                        (GetTenantMemberAttributes (member_tenantId data), Resolved)]\<rparr>)"
    by blast
qed

theorem unlisted_type_reached_iff_in_bag_witness:
  "js_in ''legacy''
     (attributes (example_row ''m1'' ''t1'' ''s1'' ''2023-01-05''
                    ((''legacy'', JObj [(''default'', JStr ''x'')]) # example_bag))) \<and>
   prefixData example_runtime
     [example_row ''m1'' ''t1'' ''s1'' ''2023-01-05''
        ((''legacy'', JObj [(''default'', JStr ''x'')]) # example_bag)]
     [\<lparr>attr_name = ''isBot'', attr_type = BOOLEAN\<rparr>,
      \<lparr>attr_name = ''legacy'', attr_type = Unlisted ''json''\<rparr>]
   = Inl (Error ''Could not map attribute type: json to OpenSearch type!'') \<and>
   js_in ''legacy''
     (attributes (example_row ''m1'' ''t1'' ''s1'' ''2023-01-05'' [(''legacy'', JNull)])) \<and>
   prefixData example_runtime
     [example_row ''m1'' ''t1'' ''s1'' ''2023-01-05'' [(''legacy'', JNull)]]
     [\<lparr>attr_name = ''legacy'', attr_type = Unlisted ''json''\<rparr>]
   = Inl TypeError \<and>
   js_in ''toString'' (attributes (example_row ''m1'' ''t1'' ''s1'' ''2023-01-05'' example_bag)) \<and>
   prefixData example_runtime
     [example_row ''m1'' ''t1'' ''s1'' ''2023-01-05'' example_bag]
     [\<lparr>attr_name = ''toString'', attr_type = Unlisted ''json''\<rparr>]
   = Inl (Error ''Could not map attribute type: json to OpenSearch type!'') \<and>
   \<not> js_in ''legacy'' (attributes (example_row ''m1'' ''t1'' ''s1'' ''2023-01-05'' example_bag)) \<and>
   prefixData example_runtime
     [example_row ''m1'' ''t1'' ''s1'' ''2023-01-05'' example_bag]
     [\<lparr>attr_name = ''isBot'', attr_type = BOOLEAN\<rparr>,
      \<lparr>attr_name = ''legacy'', attr_type = Unlisted ''json''\<rparr>,
      \<lparr>attr_name = ''karma'', attr_type = NUMBER\<rparr>]
   = prefixData example_runtime
     [example_row ''m1'' ''t1'' ''s1'' ''2023-01-05'' example_bag]
     [\<lparr>attr_name = ''isBot'', attr_type = BOOLEAN\<rparr>,
      \<lparr>attr_name = ''karma'', attr_type = NUMBER\<rparr>] \<and>
   prefixData example_runtime
     [example_row ''m1'' ''t1'' ''s1'' ''2023-01-05''
        [(''age'', JNull), (''legacy'', JObj [(''default'', JStr ''x'')])]]
     [\<lparr>attr_name = ''age'', attr_type = NUMBER\<rparr>,
      \<lparr>attr_name = ''legacy'', attr_type = Unlisted ''json''\<rparr>]
   = Inl TypeError \<and>
   (\<exists>e. prefixData example_runtime
          [example_row ''m5'' ''t1'' ''s1'' ''2023-01-09'' [(''legacy'', JObj [(''default'', JStr ''x'')])]]
          example_schema = Inl e \<and>
        syncMember (spec_service example_runtime) ''m5'' 0
          \<lparr>world = example_unlisted_world, calls = []\<rparr> =
          (Threw e,
           \<lparr>world = example_unlisted_world,
            calls = [(GetMemberData [''m5''], Resolved),
                     (GetTenantMemberAttributes ''t1'', Resolved)]\<rparr>))"
proof -
  let ?a = "\<lparr>attr_name = ''legacy'', attr_type = Unlisted ''json''\<rparr>"
  let ?s = "\<lparr>attr_name = ''toString'', attr_type = Unlisted ''json''\<rparr>"
  let ?b = "\<lparr>attr_name = ''isBot'', attr_type = BOOLEAN\<rparr>"
  let ?k = "\<lparr>attr_name = ''karma'', attr_type = NUMBER\<rparr>"
  let ?x = "JObj [(''default'', JStr ''x'')]"
  let ?own = "example_row ''m1'' ''t1'' ''s1'' ''2023-01-05'' ((''legacy'', ?x) # example_bag)"
  let ?null = "example_row ''m1'' ''t1'' ''s1'' ''2023-01-05'' [(''legacy'', JNull)]"
  let ?data = "example_row ''m1'' ''t1'' ''s1'' ''2023-01-05'' example_bag"
  have ta: "attr_type ?a = Unlisted ''json''" and ts: "attr_type ?s = Unlisted ''json''"
    by simp_all
  have in1: "js_in (attr_name ?a) (attributes ?own)"
    by (simp add: js_in_def example_row_def)
  have pre1: "prefixAttributes example_runtime (attributes ?own) [?b] [] =
      Inr [(''obj_isBot'', JObj [(''bool_default'', JBool False), (''bool_github'', JBool False)])]"
    by (simp add: example_row_def example_bag_def prefixKeys_def)
  have nn1: "map_of (attributes ?own) (attr_name ?a) \<noteq> Some JNull"
    by (simp add: example_row_def)
  have e1: "[?b, ?a] = [?b] @ ?a # []" by simp
  from unlisted_type_reached_iff_in_bag
         [where data = ?own and rt = example_runtime and others = "[]", OF e1 ta,
          THEN conjunct1, rule_format, OF in1,
          THEN conjunct2, THEN conjunct2, THEN conjunct1, rule_format, OF pre1]
       nn1
  have r1: "prefixData example_runtime [?own] [?b, ?a] =
      Inl (Error ''Could not map attribute type: json to OpenSearch type!'')"
    by (simp del: prefixData.simps prefixAttributes.simps)
  have in2: "js_in (attr_name ?a) (attributes ?null)"
    by (simp add: js_in_def example_row_def)
  have pre2: "prefixAttributes example_runtime (attributes ?null) [] [] = Inr []" by simp
  have n2: "map_of (attributes ?null) (attr_name ?a) = Some JNull"
    by (simp add: example_row_def)
  have e2: "[?a] = [] @ ?a # []" by simp
  from unlisted_type_reached_iff_in_bag
         [where data = ?null and rt = example_runtime and others = "[]", OF e2 ta,
          THEN conjunct1, rule_format, OF in2,
          THEN conjunct2, THEN conjunct2, THEN conjunct1, rule_format, OF pre2]
       n2
  have r2: "prefixData example_runtime [?null] [?a] = Inl TypeError"
    by (simp del: prefixData.simps prefixAttributes.simps)
  have in3: "js_in (attr_name ?s) (attributes ?data)"
    by (simp add: js_in_def js_property_def Object_prototype_def example_row_def example_bag_def)
  have pre3: "prefixAttributes example_runtime (attributes ?data) [] [] = Inr []" by simp
  have n3: "map_of (attributes ?data) (attr_name ?s) \<noteq> Some JNull"
    by (simp add: example_row_def example_bag_def)
  have e3: "[?s] = [] @ ?s # []" by simp
  from unlisted_type_reached_iff_in_bag
         [where data = ?data and rt = example_runtime and others = "[]", OF e3 ts,
          THEN conjunct1, rule_format, OF in3,
          THEN conjunct2, THEN conjunct2, THEN conjunct1, rule_format, OF pre3]
       n3
  have r3: "prefixData example_runtime [?data] [?s] =
      Inl (Error ''Could not map attribute type: json to OpenSearch type!'')"
    by (simp del: prefixData.simps prefixAttributes.simps)
  have nin: "\<not> js_in (attr_name ?a) (attributes ?data)"
    by (simp add: js_in_def js_property_def Object_prototype_def example_row_def example_bag_def)
  have e4: "[?b, ?a, ?k] = [?b] @ ?a # [?k]" by simp
  from unlisted_type_reached_iff_in_bag
         [where data = ?data and rt = example_runtime and others = "[]", OF e4 ta,
          THEN conjunct2, rule_format, OF nin]
  have r4: "prefixData example_runtime [?data] [?b, ?a, ?k] =
      prefixData example_runtime [?data] [?b, ?k]"
    by (simp del: prefixData.simps prefixAttributes.simps)
  from in1 in2 in3 nin have ins:
    "js_in ''legacy'' (attributes ?own)" "js_in ''legacy'' (attributes ?null)"
    "js_in ''toString'' (attributes ?data)" "\<not> js_in ''legacy'' (attributes ?data)"
    by simp_all
  let ?g = "\<lparr>attr_name = ''age'', attr_type = NUMBER\<rparr>"
  let ?both = "example_row ''m1'' ''t1'' ''s1'' ''2023-01-05'' [(''age'', JNull), (''legacy'', ?x)]"
  have in5: "js_in (attr_name ?a) (attributes ?both)"
    by (simp add: js_in_def example_row_def)
  have pre5: "prefixAttributes example_runtime (attributes ?both) [?g] [] = Inl TypeError"
    by (simp add: example_row_def)
  have e5: "[?g, ?a] = [?g] @ ?a # []" by simp
  from unlisted_type_reached_iff_in_bag
         [where data = ?both and rt = example_runtime and others = "[]", OF e5 ta,
          THEN conjunct1, rule_format, OF in5,
          THEN conjunct2, THEN conjunct1, rule_format, OF pre5]
  have r5: "prefixData example_runtime [?both] [?g, ?a] = Inl TypeError" .
  let ?m5 = "example_row ''m5'' ''t1'' ''s1'' ''2023-01-09'' [(''legacy'', ?x)]"
  let ?st = "\<lparr>world = example_unlisted_world, calls = []\<rparr>"
  have in6: "js_in (attr_name ?a) (attributes ?m5)"
    by (simp add: js_in_def example_row_def)
  have e6: "example_schema =
      [\<lparr>attr_name = ''isBot'', attr_type = BOOLEAN\<rparr>,
       \<lparr>attr_name = ''karma'', attr_type = NUMBER\<rparr>,
       \<lparr>attr_name = ''rating'', attr_type = NUMBER\<rparr>,
       \<lparr>attr_name = ''age'', attr_type = NUMBER\<rparr>,
       \<lparr>attr_name = ''syncRemote'', attr_type = SPECIAL\<rparr>] @ ?a # []"
    by (simp add: example_schema_def)
  have h6: "runtime (spec_service example_runtime) = example_runtime \<and>
      getMemberData (memberRepo (spec_service example_runtime)) [''m5''] (world ?st) =
        (Inr (?m5 # []), example_unlisted_world) \<and>
      getTenantMemberAttributes (memberRepo (spec_service example_runtime)) (member_tenantId ?m5)
        example_unlisted_world = (Inr example_schema, example_unlisted_world)"
    by (simp add: spec_service_def spec_fetchSnapshots_def spec_fetchAttributeSchema_def
          example_unlisted_world_def example_world_def example_row_def)
  from unlisted_type_reached_iff_in_bag
         [where data = ?m5 and rt = example_runtime and others = "[]", OF e6 ta,
          THEN conjunct1, rule_format, OF in6,
          THEN conjunct2, THEN conjunct2, THEN conjunct2, rule_format, OF h6, of 0]
  have r6: "\<exists>e. prefixData example_runtime [?m5] example_schema = Inl e \<and>
        syncMember (spec_service example_runtime) ''m5'' 0 ?st =
          (Threw e,
           \<lparr>world = example_unlisted_world,
            calls = [(GetMemberData [''m5''], Resolved),
                     (GetTenantMemberAttributes ''t1'', Resolved)]\<rparr>)"
    by (simp add: example_row_def del: prefixData.simps prefixAttributes.simps)
  from ins r1 r2 r3 r4 r5 r6 show ?thesis by (intro conjI)
qed

text \<open>
  C3 (counterexample). A schema with a definition of an unlisted type flattens without an
  error when the member's bag does not hold that attribute: the definition is skipped.
\<close>

theorem unlisted_type_counterexample:
  "prefixData example_runtime
     [example_row ''m1'' ''t1'' ''s1'' ''2023-01-05'' []]
     [\<lparr>attr_name = ''legacy'', attr_type = Unlisted ''json''\<rparr>]
   = Inr (JObj
       [(''uuid_memberId'', JStr ''m1''), (''uuid_tenantId'', JStr ''t1''),
        (''string_displayName'', JStr ''Ada''),
        (''obj_attributes'', JObj []),
        (''string_arr_emails'', JArr []), (''int_score'', JNum 7),
        (''date_lastEnriched'', JNull),
        (''date_joinedAt'', JStr ''2023-01-05''),
        (''int_totalReach'', JNum 0),
        (''int_numberOfOpenSourceContributions'', JNum 2),
        (''obj_arr_identities'',
         JArr [JObj [(''string_platform'', JStr ''github''),
                     (''string_username'', JStr ''ada'')]]),
        (''uuid_arr_toMergeIds'', JArr []),
        (''uuid_arr_noMergeIds'', JArr [JStr ''m9'']),
        (''obj_arr_segments'',
         JArr [JObj
            [(''uuid_segmentId'', JStr ''s1''),
             (''obj_arr_organizations'',
              JArr [JObj [(''uuid_id'', JStr ''o1''), (''string_logo'', JNull),
                          (''string_displayName'', JStr ''Acme'')]]),
             (''obj_arr_tags'',
              JArr [JObj [(''uuid_id'', JStr ''g1''), (''string_name'', JStr ''vip'')]]),
             (''string_arr_activeOn'', JArr [JStr ''github'']),
             (''int_activityCount'', JNum 3),
             (''string_arr_activityTypes'', JArr [JStr ''star'']),
             (''int_activeDaysCount'', JNum 1),
             (''date_lastActive'', JStr ''2023-02-01''),
             (''float_averageSentiment'', JNum (11 / 2))]])])"
  by (simp add: example_row_def prefixIdentity_def prefixSegment_def prefixOrganization_def
      prefixTag_def js_property_def Object_prototype_def)

section \<open>Properties of the log\<close>

lemma await_Inl:
  "await c operation st = (Inl e, st') \<longleftrightarrow>
     (\<exists>w'. operation (world st) = (Inl e, w') \<and>
           st' = \<lparr>world = w', calls = calls st @ [(c, Rejected)]\<rparr>)"
  by (auto simp: await_def split: prod.splits sum.splits)

lemma await_Inr:
  "await c operation st = (Inr v, st') \<longleftrightarrow>
     (\<exists>w'. operation (world st) = (Inr v, w') \<and>
           st' = \<lparr>world = w', calls = calls st @ [(c, Resolved)]\<rparr>)"
  by (auto simp: await_def split: prod.splits sum.splits)

lemma marks_follow_writes_append:
  "marks_follow_writes prev (xs @ ys) \<longleftrightarrow>
     marks_follow_writes prev xs \<and>
     marks_follow_writes (if xs = [] then prev else Some (last xs)) ys"
  by (induction xs arbitrary: prev) auto

lemma rejection_ends_run_append:
  "rejection_ends_run (xs @ ys) \<longleftrightarrow>
     (if ys = [] then rejection_ends_run xs
      else (\<forall>e \<in> set xs. snd e = Resolved) \<and> rejection_ends_run ys)"
proof (induction xs)
  case Nil
  then show ?case by simp
next
  case (Cons x xs)
  have "snd x \<noteq> Rejected \<longleftrightarrow> snd x = Resolved" by (cases "snd x") auto
  with Cons show ?case by auto
qed

lemma all_resolved_ends: "\<forall>e \<in> set tr. snd e = Resolved \<Longrightarrow> rejection_ends_run tr"
  by (induction tr) auto

lemma appends_resolved_well: "appends_resolved st st' \<Longrightarrow> appends_well st st'"
  by (auto simp: appends_resolved_def appends_well_def all_resolved_ends)

lemma appends_well_refl: "appends_well st st"
  by (simp add: appends_well_def)

lemma appends_resolved_refl: "appends_resolved st st"
  by (simp add: appends_resolved_def)

lemma appends_resolved_trans_well:
  "appends_resolved st st1 \<Longrightarrow> appends_well st1 st2 \<Longrightarrow> appends_well st st2"
  unfolding appends_resolved_def appends_well_def
  apply (elim exE conjE)
  subgoal for tr1 tr2
    apply (rule exI[of _ "tr1 @ tr2"])
    apply (auto simp: marks_follow_writes_append rejection_ends_run_append all_resolved_ends)
    done
  done

lemma appends_resolved_trans:
  "appends_resolved st st1 \<Longrightarrow> appends_resolved st1 st2 \<Longrightarrow> appends_resolved st st2"
  unfolding appends_resolved_def
  apply (elim exE conjE)
  subgoal for tr1 tr2
    apply (rule exI[of _ "tr1 @ tr2"])
    apply (auto simp: marks_follow_writes_append)
    done
  done

lemma await_appends:
  assumes "\<And>ids. c \<noteq> MarkSynced ids"
  shows "await c operation st = (Inl e, st') \<Longrightarrow> appends_well st st'"
    and "await c operation st = (Inr v, st') \<Longrightarrow> appends_resolved st st'"
proof -
  have nm: "(case c of MarkSynced ids \<Rightarrow> P ids | _ \<Rightarrow> True)" for P
    using assms by (cases c) auto
  show "await c operation st = (Inl e, st') \<Longrightarrow> appends_well st st'"
    using nm by (auto simp: await_Inl appends_well_def)
  show "await c operation st = (Inr v, st') \<Longrightarrow> appends_resolved st st'"
    using nm by (auto simp: await_Inr appends_resolved_def)
qed


lemma prepare_ids: "prepare rt attrs grouped = Inr prepared \<Longrightarrow> map req_id prepared = map fst grouped"
  by (induction grouped arbitrary: prepared) (auto split: sum.splits)

lemma syncBatch_appends:
  shows "syncBatch S attrs memberIds count st = (Inl e, st') \<Longrightarrow> appends_well st st'"
    and "syncBatch S attrs memberIds count st = (Inr n, st') \<Longrightarrow> appends_resolved st st'"
  unfolding syncBatch_def appends_well_def appends_resolved_def
  by (auto simp: await_def Let_def prepare_ids split: prod.splits sum.splits if_splits)


lemma syncLoop_appends:
  "appends_well st (snd (syncLoop fuel S tenantId batchSize attrs memberIds count st))"
proof (induction fuel arbitrary: memberIds count st)
  case 0
  then show ?case by (cases memberIds) (simp_all add: appends_well_refl)
next
  case (Suc fuel)
  show ?case
  proof (cases memberIds)
    case Nil
    then show ?thesis by (simp add: appends_well_refl)
  next
    case (Cons m ms)
    obtain r st1 where b: "syncBatch S attrs (m # ms) count st = (r, st1)" by force
    show ?thesis
    proof (cases r)
      case (Inl e)
      with b Cons syncBatch_appends(1)[of S attrs "m # ms" count st e st1] show ?thesis by simp
    next
      case (Inr count')
      with b have r1: "appends_resolved st st1" by (auto dest: syncBatch_appends(2))
      obtain r2 st2 where c: "await (GetTenantMembersForSync tenantId 1 batchSize)
          (getTenantMembersForSync (memberRepo S) tenantId 1 batchSize) st1 = (r2, st2)" by force
      show ?thesis
      proof (cases r2)
        case (Inl e)
        with c have "appends_well st1 st2" by (auto dest: await_appends(1)[rotated])
        with r1 have "appends_well st st2" by (rule appends_resolved_trans_well)
        with b Inr c Inl Cons show ?thesis by simp
      next
        case (Inr memberIds')
        with c have "appends_resolved st1 st2" by (auto dest: await_appends(2)[rotated])
        with r1 have "appends_resolved st st2" by (rule appends_resolved_trans)
        from this Suc.IH[of st2 memberIds' count'] have
          "appends_well st (snd (syncLoop fuel S tenantId batchSize attrs memberIds' count' st2))"
          by (rule appends_resolved_trans_well)
        with b \<open>r = Inr count'\<close> c Inr Cons show ?thesis by simp
      qed
    qed
  qed
qed

lemma syncTenantMembers_appends:
  "appends_well st (snd (syncTenantMembers fuel S tenantId reset batchSize st))"
proof -
  obtain r0 st0 where s0: "(if reset then
              await (SetTenanMembersForSync tenantId)
                (setTenanMembersForSync (memberRepo S) tenantId) st
            else (Inr (), st)) = (r0, st0)" by force
  show ?thesis
  proof (cases r0)
    case (Inl e)
    with s0 have "appends_well st st0"
      by (auto split: if_splits dest: await_appends(1)[rotated])
    with s0 Inl show ?thesis by (simp add: syncTenantMembers_def)
  next
    case (Inr u)
    with s0 have r0: "appends_resolved st st0"
      by (auto split: if_splits dest: await_appends(2)[rotated] simp: appends_resolved_refl)
    obtain r1 st1 where s1: "await (GetTenantMemberAttributes tenantId)
                   (getTenantMemberAttributes (memberRepo S) tenantId) st0 = (r1, st1)" by force
    show ?thesis
    proof (cases r1)
      case (Inl e)
      with s1 have "appends_well st0 st1" by (auto dest: await_appends(1)[rotated])
      with r0 have "appends_well st st1" by (rule appends_resolved_trans_well)
      with s0 \<open>r0 = Inr u\<close> s1 Inl show ?thesis by (simp add: syncTenantMembers_def)
    next
      case (Inr attrs)
      with s1 have "appends_resolved st0 st1" by (auto dest: await_appends(2)[rotated])
      with r0 have r1: "appends_resolved st st1" by (rule appends_resolved_trans)
      obtain r2 st2 where s2: "await (GetTenantMembersForSync tenantId 1 batchSize)
                        (getTenantMembersForSync (memberRepo S) tenantId 1 batchSize) st1 = (r2, st2)"
        by force
      show ?thesis
      proof (cases r2)
        case (Inl e)
        with s2 have "appends_well st1 st2" by (auto dest: await_appends(1)[rotated])
        with r1 have "appends_well st st2" by (rule appends_resolved_trans_well)
        with s0 \<open>r0 = Inr u\<close> s1 \<open>r1 = Inr attrs\<close> s2 Inl show ?thesis
          by (simp add: syncTenantMembers_def)
      next
        case (Inr memberIds)
        with s2 have "appends_resolved st1 st2" by (auto dest: await_appends(2)[rotated])
        with r1 have "appends_resolved st st2" by (rule appends_resolved_trans)
        from this syncLoop_appends[of st2 fuel S tenantId batchSize attrs memberIds 0]
        have "appends_well st (snd (syncLoop fuel S tenantId batchSize attrs memberIds 0 st2))"
          by (rule appends_resolved_trans_well)
        with s0 \<open>r0 = Inr u\<close> s1 \<open>r1 = Inr attrs\<close> s2 Inr show ?thesis
          by (simp add: syncTenantMembers_def)
      qed
    qed
  qed
qed


lemma write_then_mark_appends:
  assumes "await (Index memberId MEMBERS prepared)
             (index (openSearchService S) memberId MEMBERS prepared) st2 = (Inr u, st3)"
    and "await (MarkSynced [memberId]) (markSynced (memberRepo S) [memberId]) st3 = (r, st4)"
  shows "appends_well st2 st4"
  using assms unfolding appends_well_def
  by (auto simp: await_def split: prod.splits sum.splits)

lemma syncMember_appends:
  "appends_well st (snd (syncMember S memberId retries st))"
proof (induction S memberId retries st rule: syncMember.induct)
  case (1 S memberId retries st)
  obtain r0 st1 where g: "await (GetMemberData [memberId]) (getMemberData (memberRepo S) [memberId]) st
      = (r0, st1)" by force
  show ?case
  proof (cases r0)
    case (Inl e)
    with g have "appends_well st st1" by (auto dest: await_appends(1)[rotated])
    with g Inl show ?thesis by (subst syncMember.simps) simp
  next
    case (Inr members)
    with g have r0: "appends_resolved st st1" by (auto dest: await_appends(2)[rotated])
    show ?thesis
    proof (cases members)
      case Nil
      show ?thesis
      proof (cases "retries < 5")
        case True
        obtain r2 st2 where t: "await (Timeout 100) (\<lambda>w. (Inr (), timeout S 100 w)) st1 = (r2, st2)"
          by force
        then have "r2 = Inr ()" by (auto simp: await_def)
        with t have "appends_resolved st1 st2" by (auto dest: await_appends(2)[rotated])
        with r0 have r2: "appends_resolved st st2" by (rule appends_resolved_trans)
        from "1.IH"[OF g[symmetric, unfolded Inr] refl Nil True t[symmetric]]
        have "appends_well st2 (snd (syncMember S memberId (Suc retries) st2))" .
        with r2 have "appends_well st (snd (syncMember S memberId (Suc retries) st2))"
          by (rule appends_resolved_trans_well)
        with g Inr Nil True t show ?thesis by (subst syncMember.simps) simp
      next
        case False
        obtain r2 st2 where d: "await (RemoveFromIndex memberId MEMBERS)
            (removeFromIndex (openSearchService S) memberId MEMBERS) st1 = (r2, st2)" by force
        have "appends_well st1 st2"
          using d by (cases r2) (auto dest: await_appends[rotated] appends_resolved_well)
        with r0 have "appends_well st st2" by (rule appends_resolved_trans_well)
        with g Inr Nil False d show ?thesis
          by (subst syncMember.simps) (simp split: sum.splits)
      qed
    next
      case (Cons data others)
      obtain r1 st2 where a: "await (GetTenantMemberAttributes (member_tenantId data))
          (getTenantMemberAttributes (memberRepo S) (member_tenantId data)) st1 = (r1, st2)" by force
      show ?thesis
      proof (cases r1)
        case (Inl e)
        with a have "appends_well st1 st2" by (auto dest: await_appends(1)[rotated])
        with r0 have "appends_well st st2" by (rule appends_resolved_trans_well)
        with g Inr Cons a Inl show ?thesis by (subst syncMember.simps) simp
      next
        case (Inr attrs)
        with a have "appends_resolved st1 st2" by (auto dest: await_appends(2)[rotated])
        with r0 have r2: "appends_resolved st st2" by (rule appends_resolved_trans)
        show ?thesis
        proof (cases "prefixData (runtime S) (data # others) attrs")
          case (Inl e)
          with g \<open>r0 = Inr members\<close> Cons a Inr r2 show ?thesis
            by (subst syncMember.simps) (simp add: appends_resolved_well)
        next
          case (Inr prepared)
          obtain r3 st3 where w: "await (Index memberId MEMBERS prepared)
              (index (openSearchService S) memberId MEMBERS prepared) st2 = (r3, st3)" by force
          show ?thesis
          proof (cases r3)
            case (Inl e)
            with w have "appends_well st2 st3" by (auto dest: await_appends(1)[rotated])
            with r2 have "appends_well st st3" by (rule appends_resolved_trans_well)
            with g \<open>r0 = Inr members\<close> Cons a \<open>r1 = Inr attrs\<close> Inr w Inl show ?thesis
              by (subst syncMember.simps) simp
          next
            case (Inr u)
            obtain r4 st4 where m: "await (MarkSynced [memberId])
                (markSynced (memberRepo S) [memberId]) st3 = (r4, st4)" by force
            from w Inr m have "appends_well st2 st4" by (auto intro: write_then_mark_appends)
            with r2 have "appends_well st st4" by (rule appends_resolved_trans_well)
            with g \<open>r0 = Inr members\<close> Cons a \<open>r1 = Inr attrs\<close>
              \<open>prefixData (runtime S) (data # others) attrs = Inr prepared\<close> w Inr m
            show ?thesis by (subst syncMember.simps) (simp split: sum.splits)
          qed
        qed
      qed
    qed
  qed
qed


text \<open>
  C9. In a run of \<^verbatim>\<open>syncMember\<close> and in a run of \<^verbatim>\<open>syncTenantMembers\<close>, over any
  collaborators and from any state of the world, every \<^verbatim>\<open>markSynced\<close> call comes right
  after an index write (single or bulk) for the same ids that resolved, and a call that is
  rejected is the last call of the run: after a failed write nothing is marked synced.
\<close>

theorem mark_synced_only_after_write:
  "marks_follow_writes None
     (calls (snd (syncMember S memberId retries \<lparr>world = w, calls = []\<rparr>))) \<and>
   rejection_ends_run
     (calls (snd (syncMember S memberId retries \<lparr>world = w, calls = []\<rparr>))) \<and>
   marks_follow_writes None
     (calls (snd (syncTenantMembers fuel S tenantId reset batchSize \<lparr>world = w, calls = []\<rparr>))) \<and>
   rejection_ends_run
     (calls (snd (syncTenantMembers fuel S tenantId reset batchSize \<lparr>world = w, calls = []\<rparr>)))"
  using syncMember_appends[of "\<lparr>world = w, calls = []\<rparr>" S memberId retries]
    syncTenantMembers_appends[of "\<lparr>world = w, calls = []\<rparr>" fuel S tenantId reset batchSize]
  by (auto simp: appends_well_def)

theorem mark_synced_only_after_write_witness:
  "marks_follow_writes None
     (calls (snd (syncMember example_failing_service ''m1'' 0
                    \<lparr>world = example_world, calls = []\<rparr>))) \<and>
   map snd (calls (snd (syncMember example_failing_service ''m1'' 0
                          \<lparr>world = example_world, calls = []\<rparr>)))
     = [Resolved, Resolved, Rejected] \<and>
   rejection_ends_run
     (calls (snd (syncTenantMembers 5 example_failing_service ''t1'' True 2
                    \<lparr>world = example_world, calls = []\<rparr>))) \<and>
   map snd (calls (snd (syncTenantMembers 5 example_failing_service ''t1'' True 2
                          \<lparr>world = example_world, calls = []\<rparr>)))
     = [Resolved, Resolved, Resolved, Resolved, Rejected]"
proof -
  have e1: "map snd (calls (snd (syncMember example_failing_service ''m1'' 0
                          \<lparr>world = example_world, calls = []\<rparr>)))
     = [Resolved, Resolved, Rejected]"
    by code_simp
  have e2: "map snd (calls (snd (syncTenantMembers 5 example_failing_service ''t1'' True 2
                          \<lparr>world = example_world, calls = []\<rparr>)))
     = [Resolved, Resolved, Resolved, Resolved, Rejected]"
    by code_simp
  from mark_synced_only_after_write[of example_failing_service "''m1''" 0 example_world 5 "''t1''" True 2]
    e1 e2 show ?thesis by blast
qed

section \<open>Incremental sync over the specification's store and index\<close>

lemma spec_service_sel [simp]:
  "getMemberData (memberRepo (spec_service rt)) = spec_fetchSnapshots"
  "getTenantMemberAttributes (memberRepo (spec_service rt)) = spec_fetchAttributeSchema"
  "getTenantMembersForSync (memberRepo (spec_service rt)) = spec_claimPending"
  "setTenanMembersForSync (memberRepo (spec_service rt)) = spec_setPendingQueue"
  "checkMembersExists (memberRepo (spec_service rt)) = spec_existingIds"
  "markSynced (memberRepo (spec_service rt)) = spec_markSynced"
  "search (openSearchService (spec_service rt)) = spec_search"
  "removeFromIndex (openSearchService (spec_service rt)) = spec_delete"
  "bulkIndex (openSearchService (spec_service rt)) = spec_bulkWrite"
  "index (openSearchService (spec_service rt)) = spec_write"
  "runtime (spec_service rt) = rt"
  "timeout (spec_service rt) = (\<lambda>ms w. w)"
  by (simp_all add: spec_service_def)

text \<open>
  C7 (as amended). When the fetch of a member's snapshots is not empty, over the
  specification's store and index: if the snapshots flatten, a call of \<^verbatim>\<open>syncMember\<close>
  returns after four calls that all resolve (the fetch, the read of the schema of the first
  snapshot's tenant, one index write of the flattened snapshots under the member's id, the
  mark), leaving the index with that document under the id, the id in no pending queue and
  everything else as it was, and a second call from there ends in the same world; if
  flattening throws, the call throws the same error after the fetch and the read of the
  schema, with the store and the index as they were.
\<close>

theorem syncMember_present_member:
  assumes "fst (spec_fetchSnapshots [memberId] w) = Inr (data # others)"
  shows "(\<forall>p. prefixData rt (data # others) (store_schemas w (member_tenantId data)) = Inr p \<longrightarrow>
           (\<exists>w'. syncMember (spec_service rt) memberId retries \<lparr>world = w, calls = []\<rparr> =
              (Returned (),
               \<lparr>world = w',
                calls = [(GetMemberData [memberId], Resolved),
                         (GetTenantMemberAttributes (member_tenantId data), Resolved),
                         (Index memberId MEMBERS p, Resolved),
                         (MarkSynced [memberId], Resolved)]\<rparr>) \<and>
              w' = w\<lparr>index_documents := AList.update memberId p (index_documents w),
                     store_pending := (\<lambda>t. filter (\<lambda>m. m \<noteq> memberId) (store_pending w t))\<rparr> \<and>
              map_of (index_documents w') memberId = Some p \<and>
              (\<forall>t. memberId \<notin> set (store_pending w' t)) \<and>
              world (snd (syncMember (spec_service rt) memberId retries \<lparr>world = w', calls = []\<rparr>))
                = w')) \<and>
         (\<forall>e. prefixData rt (data # others) (store_schemas w (member_tenantId data)) = Inl e \<longrightarrow>
            syncMember (spec_service rt) memberId retries \<lparr>world = w, calls = []\<rparr> =
              (Threw e,
               \<lparr>world = w,
                calls = [(GetMemberData [memberId], Resolved),
                         (GetTenantMemberAttributes (member_tenantId data), Resolved)]\<rparr>))"
proof (intro conjI allI impI)
  fix p
  assume fl: "prefixData rt (data # others) (store_schemas w (member_tenantId data)) = Inr p"
  let ?w' = "w\<lparr>index_documents := AList.update memberId p (index_documents w),
                  store_pending := (\<lambda>t. filter (\<lambda>m. m \<noteq> memberId) (store_pending w t))\<rparr>"
  have run: "syncMember (spec_service rt) memberId retries \<lparr>world = v, calls = []\<rparr> =
           (Returned (),
            \<lparr>world = v\<lparr>index_documents := AList.update memberId p (index_documents v),
                  store_pending := (\<lambda>t. filter (\<lambda>m. m \<noteq> memberId) (store_pending v t))\<rparr>,
             calls = [(GetMemberData [memberId], Resolved),
                      (GetTenantMemberAttributes (member_tenantId data), Resolved),
                      (Index memberId MEMBERS p, Resolved),
                      (MarkSynced [memberId], Resolved)]\<rparr>)"
    if "store_rows v = store_rows w" and "store_schemas v = store_schemas w" for v
    using assms fl that
    by (subst syncMember.simps)
       (simp add: await_def spec_fetchSnapshots_def spec_fetchAttributeSchema_def spec_write_def
          spec_markSynced_def)
  have "world (snd (syncMember (spec_service rt) memberId retries \<lparr>world = ?w', calls = []\<rparr>)) = ?w'"
    by (subst run) (simp_all add: comp_def)
  moreover have "map_of (index_documents ?w') memberId = Some p"
    by (simp add: AList.update_conv')
  moreover have "\<forall>t. memberId \<notin> set (store_pending ?w' t)" by simp
  ultimately show "\<exists>w'. syncMember (spec_service rt) memberId retries \<lparr>world = w, calls = []\<rparr> =
              (Returned (),
               \<lparr>world = w',
                calls = [(GetMemberData [memberId], Resolved),
                         (GetTenantMemberAttributes (member_tenantId data), Resolved),
                         (Index memberId MEMBERS p, Resolved),
                         (MarkSynced [memberId], Resolved)]\<rparr>) \<and>
              w' = w\<lparr>index_documents := AList.update memberId p (index_documents w),
                     store_pending := (\<lambda>t. filter (\<lambda>m. m \<noteq> memberId) (store_pending w t))\<rparr> \<and>
              map_of (index_documents w') memberId = Some p \<and>
              (\<forall>t. memberId \<notin> set (store_pending w' t)) \<and>
              world (snd (syncMember (spec_service rt) memberId retries \<lparr>world = w', calls = []\<rparr>))
                = w'"
    using run[of w] by auto
next
  fix e
  assume "prefixData rt (data # others) (store_schemas w (member_tenantId data)) = Inl e"
  with assms
  show "syncMember (spec_service rt) memberId retries \<lparr>world = w, calls = []\<rparr> =
              (Threw e,
               \<lparr>world = w,
                calls = [(GetMemberData [memberId], Resolved),
                         (GetTenantMemberAttributes (member_tenantId data), Resolved)]\<rparr>)"
    by (subst syncMember.simps)
       (simp add: await_def spec_fetchSnapshots_def spec_fetchAttributeSchema_def)
qed

theorem syncMember_present_member_witness:
  "fst (spec_fetchSnapshots [''m1''] example_world) =
     Inr [example_row ''m1'' ''t1'' ''s1'' ''2023-01-05'' example_bag,
          example_row ''m1'' ''t1'' ''s2'' ''2023-01-05'' example_bag] \<and>
   (\<exists>p. prefixData example_runtime
          [example_row ''m1'' ''t1'' ''s1'' ''2023-01-05'' example_bag,
           example_row ''m1'' ''t1'' ''s2'' ''2023-01-05'' example_bag]
          example_schema = Inr p \<and>
        syncMember (spec_service example_runtime) ''m1'' 0 \<lparr>world = example_world, calls = []\<rparr> =
          (Returned (),
           \<lparr>world = example_world\<lparr>index_documents :=
                      [(''m1'', p),
                       (''m4'', example_doc ''t1'' ''2023-01-07''),
                       (''m2'', example_doc ''t1'' ''2023-01-06''),
                       (''x9'', example_doc ''t2'' ''2023-01-01'')]\<rparr>,
            calls = [(GetMemberData [''m1''], Resolved),
                     (GetTenantMemberAttributes ''t1'', Resolved),
                     (Index ''m1'' MEMBERS p, Resolved),
                     (MarkSynced [''m1''], Resolved)]\<rparr>)) \<and>
   fst (spec_fetchSnapshots [''m6''] example_null_entry_world) =
     Inr [example_row ''m6'' ''t1'' ''s1'' ''2023-01-10'' [(''age'', JNull)]] \<and>
   prefixData example_runtime [example_row ''m6'' ''t1'' ''s1'' ''2023-01-10'' [(''age'', JNull)]]
     example_schema = Inl TypeError \<and>
   syncMember (spec_service example_runtime) ''m6'' 0
     \<lparr>world = example_null_entry_world, calls = []\<rparr> =
     (Threw TypeError,
      \<lparr>world = example_null_entry_world,
       calls = [(GetMemberData [''m6''], Resolved),
                (GetTenantMemberAttributes ''t1'', Resolved)]\<rparr>)"
proof -
  let ?d = "example_row ''m1'' ''t1'' ''s1'' ''2023-01-05'' example_bag"
  let ?o = "[example_row ''m1'' ''t1'' ''s2'' ''2023-01-05'' example_bag]"
  let ?n = "example_row ''m6'' ''t1'' ''s1'' ''2023-01-10'' [(''age'', JNull)]"
  have f: "fst (spec_fetchSnapshots [''m1''] example_world) = Inr (?d # ?o)"
    by (simp add: spec_fetchSnapshots_def example_world_def example_row_def)
  have t: "member_tenantId ?d = ''t1''" by (simp add: example_row_def)
  have sch: "store_schemas example_world ''t1'' = example_schema" by (simp add: example_world_def)
  have "\<not> isl (prefixData example_runtime (?d # ?o) example_schema)" by code_simp
  then obtain p where p: "prefixData example_runtime (?d # ?o) example_schema = Inr p"
    by (cases "prefixData example_runtime (?d # ?o) example_schema") auto
  from p t sch have p': "prefixData example_runtime (?d # ?o)
      (store_schemas example_world (member_tenantId ?d)) = Inr p" by simp
  have w: "example_world\<lparr>index_documents := AList.update ''m1'' p (index_documents example_world),
                  store_pending := (\<lambda>t. filter (\<lambda>m. m \<noteq> ''m1'') (store_pending example_world t))\<rparr>
      = example_world\<lparr>index_documents :=
                      [(''m1'', p),
                       (''m4'', example_doc ''t1'' ''2023-01-07''),
                       (''m2'', example_doc ''t1'' ''2023-01-06''),
                       (''x9'', example_doc ''t2'' ''2023-01-01'')]\<rparr>"
    by (simp add: example_world_def)
  from syncMember_present_member[OF f, of example_runtime 0, THEN conjunct1, rule_format, OF p'] t w
  have ok: "syncMember (spec_service example_runtime) ''m1'' 0 \<lparr>world = example_world, calls = []\<rparr> =
          (Returned (),
           \<lparr>world = example_world\<lparr>index_documents :=
                      [(''m1'', p),
                       (''m4'', example_doc ''t1'' ''2023-01-07''),
                       (''m2'', example_doc ''t1'' ''2023-01-06''),
                       (''x9'', example_doc ''t2'' ''2023-01-01'')]\<rparr>,
            calls = [(GetMemberData [''m1''], Resolved),
                     (GetTenantMemberAttributes ''t1'', Resolved),
                     (Index ''m1'' MEMBERS p, Resolved),
                     (MarkSynced [''m1''], Resolved)]\<rparr>)"
    by auto
  have fn: "fst (spec_fetchSnapshots [''m6''] example_null_entry_world) = Inr (?n # [])"
    by (simp add: spec_fetchSnapshots_def example_null_entry_world_def example_world_def
          example_row_def)
  have tn: "member_tenantId ?n = ''t1''" by (simp add: example_row_def)
  have schn: "store_schemas example_null_entry_world ''t1'' = example_schema"
    by (simp add: example_null_entry_world_def example_world_def)
  have pn: "prefixData example_runtime [?n] example_schema = Inl TypeError"
    by (simp add: example_row_def example_schema_def js_property_def Object_prototype_def)
  from pn tn schn have pn': "prefixData example_runtime (?n # [])
      (store_schemas example_null_entry_world (member_tenantId ?n)) = Inl TypeError" by simp
  from syncMember_present_member[OF fn, of example_runtime 0, THEN conjunct2, rule_format, OF pn'] tn
  have thrown: "syncMember (spec_service example_runtime) ''m6'' 0
     \<lparr>world = example_null_entry_world, calls = []\<rparr> =
     (Threw TypeError,
      \<lparr>world = example_null_entry_world,
       calls = [(GetMemberData [''m6''], Resolved),
                (GetTenantMemberAttributes ''t1'', Resolved)]\<rparr>)"
    by simp
  from f p ok fn pn thrown show ?thesis by auto
qed

text \<open>
  C7 (counterexample). The fetch of member \<open>m5\<close> is not empty, yet no document is
  written: its bag holds an attribute of an unlisted type, flattening throws and
  \<^verbatim>\<open>syncMember\<close> throws after the two reads.
\<close>

theorem syncMember_present_member_counterexample:
  "syncMember (spec_service example_runtime) ''m5'' 0
     \<lparr>world = example_unlisted_world, calls = []\<rparr> =
     (Threw (Error ''Could not map attribute type: json to OpenSearch type!''),
      \<lparr>world = example_unlisted_world,
       calls = [(GetMemberData [''m5''], Resolved),
                (GetTenantMemberAttributes ''t1'', Resolved)]\<rparr>)"
  by (subst syncMember.simps)
     (simp add: await_def spec_fetchSnapshots_def spec_fetchAttributeSchema_def
        example_unlisted_world_def example_world_def example_row_def example_schema_def
        js_property_def Object_prototype_def)

lemma syncMember_absent_retry:
  assumes "fst (spec_fetchSnapshots [memberId] w) = Inr []" and "retries < 5"
  shows "syncMember (spec_service rt) memberId retries \<lparr>world = w, calls = tr\<rparr> =
         syncMember (spec_service rt) memberId (Suc retries)
           \<lparr>world = w,
            calls = tr @ [(GetMemberData [memberId], Resolved), (Timeout 100, Resolved)]\<rparr>"
  using assms
  by (subst syncMember.simps) (simp add: await_def spec_fetchSnapshots_def)

lemma syncMember_absent_delete:
  assumes "fst (spec_fetchSnapshots [memberId] w) = Inr []" and "\<not> retries < 5"
  shows "syncMember (spec_service rt) memberId retries \<lparr>world = w, calls = tr\<rparr> =
         (Returned (),
          \<lparr>world = w\<lparr>index_documents := filter (\<lambda>d. fst d \<noteq> memberId) (index_documents w)\<rparr>,
           calls = tr @ [(GetMemberData [memberId], Resolved),
                         (RemoveFromIndex memberId MEMBERS, Resolved)]\<rparr>)"
  using assms
  by (subst syncMember.simps) (simp add: await_def spec_fetchSnapshots_def spec_delete_def)

text \<open>
  C2. When the fetch of a member's snapshots is empty, a call of \<^verbatim>\<open>syncMember\<close> with
  the attempt counter at 0, over the specification's store and index, fetches six times
  (the first try and five retries), waits 100 ms before each retry, then deletes the id
  from the index and returns without an error: the index holds no document under the id.
\<close>

theorem syncMember_absent_member:
  assumes "fst (spec_fetchSnapshots [memberId] w) = Inr []"
  shows "\<exists>w'. syncMember (spec_service rt) memberId 0 \<lparr>world = w, calls = []\<rparr> =
           (Returned (),
            \<lparr>world = w',
             calls = [(GetMemberData [memberId], Resolved), (Timeout 100, Resolved),
                      (GetMemberData [memberId], Resolved), (Timeout 100, Resolved),
                      (GetMemberData [memberId], Resolved), (Timeout 100, Resolved),
                      (GetMemberData [memberId], Resolved), (Timeout 100, Resolved),
                      (GetMemberData [memberId], Resolved), (Timeout 100, Resolved),
                      (GetMemberData [memberId], Resolved),
                      (RemoveFromIndex memberId MEMBERS, Resolved)]\<rparr>) \<and>
           w' = w\<lparr>index_documents := filter (\<lambda>d. fst d \<noteq> memberId) (index_documents w)\<rparr> \<and>
           memberId \<notin> fst ` set (index_documents w')"
proof -
  note r = syncMember_absent_retry[OF assms, of _ rt]
  have "syncMember (spec_service rt) memberId 0 \<lparr>world = w, calls = []\<rparr> =
      syncMember (spec_service rt) memberId (Suc (Suc (Suc (Suc (Suc 0)))))
        \<lparr>world = w,
         calls = [(GetMemberData [memberId], Resolved), (Timeout 100, Resolved),
                  (GetMemberData [memberId], Resolved), (Timeout 100, Resolved),
                  (GetMemberData [memberId], Resolved), (Timeout 100, Resolved),
                  (GetMemberData [memberId], Resolved), (Timeout 100, Resolved),
                  (GetMemberData [memberId], Resolved), (Timeout 100, Resolved)]\<rparr>"
    by (simp add: r)
  also have "\<dots> = (Returned (),
            \<lparr>world = w\<lparr>index_documents := filter (\<lambda>d. fst d \<noteq> memberId) (index_documents w)\<rparr>,
             calls = [(GetMemberData [memberId], Resolved), (Timeout 100, Resolved),
                      (GetMemberData [memberId], Resolved), (Timeout 100, Resolved),
                      (GetMemberData [memberId], Resolved), (Timeout 100, Resolved),
                      (GetMemberData [memberId], Resolved), (Timeout 100, Resolved),
                      (GetMemberData [memberId], Resolved), (Timeout 100, Resolved),
                      (GetMemberData [memberId], Resolved),
                      (RemoveFromIndex memberId MEMBERS, Resolved)]\<rparr>)"
    by (subst syncMember_absent_delete[OF assms]) simp_all
  finally show ?thesis by auto
qed


theorem syncMember_absent_member_witness:
  "fst (spec_fetchSnapshots [''m4''] example_world) = Inr [] \<and>
   fst (syncMember (spec_service example_runtime) ''m4'' 0 \<lparr>world = example_world, calls = []\<rparr>)
     = Returned () \<and>
   index_documents
     (world (snd (syncMember (spec_service example_runtime) ''m4'' 0
                    \<lparr>world = example_world, calls = []\<rparr>)))
     = [(''m1'', example_doc ''t1'' ''2023-01-05''),
        (''m2'', example_doc ''t1'' ''2023-01-06''),
        (''x9'', example_doc ''t2'' ''2023-01-01'')]"
proof -
  have f: "fst (spec_fetchSnapshots [''m4''] example_world) = Inr []"
    by (simp add: spec_fetchSnapshots_def example_world_def example_row_def)
  have d: "filter (\<lambda>d. fst d \<noteq> ''m4'') (index_documents example_world) =
      [(''m1'', example_doc ''t1'' ''2023-01-05''),
       (''m2'', example_doc ''t1'' ''2023-01-06''),
       (''x9'', example_doc ''t2'' ''2023-01-01'')]"
    by (simp add: example_world_def)
  from syncMember_absent_member[OF f, of example_runtime] d f show ?thesis by auto
qed

section \<open>Full resync over the specification's store and index\<close>

lemma pages_Nil [simp]: "pages B [] = []"
  by (simp add: pages.simps)

lemma pages_Cons: "0 < B \<Longrightarrow> xs \<noteq> [] \<Longrightarrow> pages B xs = take B xs # pages B (drop B xs)"
  by (subst pages.simps) simp

lemma ceil_div_step: "0 < B \<Longrightarrow> 0 < n \<Longrightarrow> (n + B - 1) div B = Suc ((n - 1) div B)"
proof -
  assume B: "0 < B" and n: "0 < (n::nat)"
  from n have "n + B - 1 = (n - 1) + B" by simp
  then have "(n + B - 1) div B = ((n - 1) + B) div B" by simp
  also from B have "\<dots> = Suc ((n - 1) div B)" by simp
  finally show ?thesis .
qed

lemma ceil_div_drop: "0 < B \<Longrightarrow> 0 < n \<Longrightarrow> (n - B + B - 1) div B = (n - 1) div (B::nat)"
  by (cases "B \<le> n") simp_all

lemma length_pages: "0 < B \<Longrightarrow> length (pages B xs) = (length xs + B - 1) div B"
proof (induction B xs rule: pages.induct)
  case (1 B xs)
  show ?case
  proof (cases "xs = []")
    case True
    with "1.prems" show ?thesis by simp
  next
    case False
    then have n: "0 < length xs" by simp
    from False "1.prems" "1.IH" have "length (pages B (drop B xs)) = (length xs - B + B - 1) div B"
      by simp
    with n "1.prems" have "length (pages B (drop B xs)) = (length xs - 1) div B"
      by (simp only: ceil_div_drop)
    then have "length (pages B xs) = Suc ((length xs - 1) div B)"
      using False "1.prems" by (simp add: pages_Cons)
    with n "1.prems" show ?thesis by (simp only: ceil_div_step)
  qed
qed


lemma groupBy_snoc:
  "groupBy f (xs @ [x]) =
     (case map_of (groupBy f xs) (f x) of
        None \<Rightarrow> groupBy f xs @ [(f x, [x])]
      | Some items \<Rightarrow> AList.update (f x) (items @ [x]) (groupBy f xs))"
  unfolding groupBy_def by simp

lemma groupBy_Nil [simp]: "groupBy f [] = []"
  by (simp add: groupBy_def)

lemma groupBy_props:
  "distinct (map fst (groupBy f xs)) \<and> fst ` set (groupBy f xs) = f ` set xs \<and>
   (\<forall>k g. map_of (groupBy f xs) k = Some g \<longrightarrow> g = filter (\<lambda>x. f x = k) xs)"
proof (induction xs rule: rev_induct)
  case Nil
  then show ?case by simp
next
  case (snoc x xs)
  let ?G = "groupBy f xs"
  from snoc have d: "distinct (map fst ?G)" and k: "fst ` set ?G = f ` set xs"
    and g: "\<And>k g. map_of ?G k = Some g \<Longrightarrow> g = filter (\<lambda>x. f x = k) xs" by blast+
  show ?case
  proof (cases "map_of ?G (f x)")
    case None
    then have nk: "f x \<notin> fst ` set ?G" by (simp add: map_of_eq_None_iff)
    with k have "\<forall>y \<in> set xs. f y \<noteq> f x" by (metis image_eqI)
    then have nf: "filter (\<lambda>y. f y = f x) xs = []" by (simp add: filter_empty_conv)
    have G': "groupBy f (xs @ [x]) = ?G @ [(f x, [x])]" using None by (simp add: groupBy_snoc)
    have 1: "distinct (map fst (groupBy f (xs @ [x])))" using d nk by (simp add: G')
    have 2: "fst ` set (groupBy f (xs @ [x])) = f ` set (xs @ [x])" using k by (auto simp: G')
    have 3: "g' = filter (\<lambda>y. f y = k') (xs @ [x])"
      if "map_of (groupBy f (xs @ [x])) k' = Some g'" for k' g'
    proof (cases "k' = f x")
      case True
      with that None have "g' = [x]" by (simp add: G' map_add_def)
      with True nf show ?thesis by simp
    next
      case False
      with that have "map_of ?G k' = Some g'"
        by (auto simp: G' map_add_def split: option.splits)
      from g[OF this] False show ?thesis by auto
    qed
    from 1 2 3 show ?thesis by blast
  next
    case (Some items)
    then have it: "items = filter (\<lambda>y. f y = f x) xs" by (rule g)
    have ik: "f x \<in> fst ` set ?G"
    proof (rule ccontr)
      assume "f x \<notin> fst ` set ?G"
      then have "map_of ?G (f x) = None" by (simp add: map_of_eq_None_iff)
      with Some show False by simp
    qed
    have G': "groupBy f (xs @ [x]) = AList.update (f x) (items @ [x]) ?G"
      using Some by (simp add: groupBy_snoc)
    have 1: "distinct (map fst (groupBy f (xs @ [x])))" using d by (simp add: G' distinct_update)
    have 2: "fst ` set (groupBy f (xs @ [x])) = f ` set (xs @ [x])"
      using k ik by (auto simp: G' dom_update)
    have 3: "g' = filter (\<lambda>y. f y = k') (xs @ [x])"
      if "map_of (groupBy f (xs @ [x])) k' = Some g'" for k' g'
    proof (cases "k' = f x")
      case True
      with that it show ?thesis by (simp add: G' update_conv')
    next
      case False
      with that have "map_of ?G k' = Some g'" by (simp add: G' update_conv')
      from g[OF this] False show ?thesis by auto
    qed
    from 1 2 3 show ?thesis by blast
  qed
qed

lemma groupBy_member:
  assumes "(k, g) \<in> set (groupBy f xs)"
  shows "g = filter (\<lambda>x. f x = k) xs"
proof -
  from groupBy_props[of f xs] have "distinct (map fst (groupBy f xs))" by blast
  with assms have "map_of (groupBy f xs) k = Some g" by simp
  with groupBy_props[of f xs] show ?thesis by blast
qed

lemma prepare_succeeds:
  "\<forall>(k, g) \<in> set grouped. \<exists>p. prefixData rt g attrs = Inr p \<Longrightarrow>
   \<exists>prepared. prepare rt attrs grouped = Inr prepared \<and> map req_id prepared = map fst grouped"
  by (induction grouped) (auto split: sum.splits)

lemma syncBatch_spec:
  assumes ne: "ids \<noteq> []"
    and flat: "\<forall>memberId \<in> set ids.
        \<exists>p. prefixData rt (filter (\<lambda>r. member_id r = memberId) (store_rows w)) attrs = Inr p"
  shows "\<exists>prepared marked.
      syncBatch (spec_service rt) attrs ids count \<lparr>world = w, calls = tr\<rparr> =
        (Inr (count + length marked),
         \<lparr>world = w\<lparr>index_documents :=
                      fold (\<lambda>r docs. AList.update (req_id r) (body r) docs) prepared
                        (index_documents w),
                    store_pending := (\<lambda>t. filter (\<lambda>m. m \<notin> set ids) (store_pending w t))\<rparr>,
          calls = tr @ [(GetMemberData ids, Resolved), (BulkIndex MEMBERS prepared, Resolved),
                        (MarkSynced marked, Resolved)]\<rparr>) \<and>
      set marked = set ids \<and> distinct marked"
proof -
  let ?all = "filter (\<lambda>r. member_id r \<in> set ids) (store_rows w)"
  let ?G = "groupBy member_id ?all"
  have rows: "filter (\<lambda>r. member_id r = k) ?all = filter (\<lambda>r. member_id r = k) (store_rows w)"
    if "k \<in> set ids" for k
    using that by (induction "store_rows w") (auto simp: filter_id_conv intro: filter_cong)
  have nonempty: "filter (\<lambda>r. member_id r = k) (store_rows w) \<noteq> []" if "k \<in> set ids" for k
  proof
    assume "filter (\<lambda>r. member_id r = k) (store_rows w) = []"
    with flat that show False by force
  qed
  have keys: "fst ` set ?G = set ids"
  proof -
    have "member_id ` set ?all = set ids"
    proof
      show "member_id ` set ?all \<subseteq> set ids" by auto
      show "set ids \<subseteq> member_id ` set ?all"
      proof
        fix k assume k: "k \<in> set ids"
        from nonempty[OF k] obtain r where "r \<in> set (store_rows w)" "member_id r = k"
          by (auto simp: filter_empty_conv)
        with k show "k \<in> member_id ` set ?all" by force
      qed
    qed
    with groupBy_props[of member_id ?all] show ?thesis by simp
  qed
  have dist: "distinct (map fst ?G)" using groupBy_props[of member_id ?all] by blast
  from keys ne have Gne: "?G \<noteq> []" by auto
  have "\<forall>(k, g) \<in> set ?G. \<exists>p. prefixData rt g attrs = Inr p"
  proof (clarify)
    fix k g assume kg: "(k, g) \<in> set ?G"
    then have "k \<in> set ids" using keys by force
    with groupBy_member[OF kg] rows flat show "\<exists>p. prefixData rt g attrs = Inr p" by simp
  qed
  from prepare_succeeds[OF this] obtain prepared
    where prep: "prepare rt attrs ?G = Inr prepared" by blast
  have "syncBatch (spec_service rt) attrs ids count \<lparr>world = w, calls = tr\<rparr> =
        (Inr (count + length (map fst ?G)),
         \<lparr>world = w\<lparr>index_documents :=
                      fold (\<lambda>r docs. AList.update (req_id r) (body r) docs) prepared
                        (index_documents w),
                    store_pending := (\<lambda>t. filter (\<lambda>m. m \<notin> set ids) (store_pending w t))\<rparr>,
          calls = tr @ [(GetMemberData ids, Resolved), (BulkIndex MEMBERS prepared, Resolved),
                        (MarkSynced (map fst ?G), Resolved)]\<rparr>)"
    using Gne prep keys
    by (simp add: syncBatch_def await_def spec_fetchSnapshots_def spec_bulkWrite_def
        spec_markSynced_def Let_def)
  with keys dist show ?thesis by (intro exI[of _ prepared] exI[of _ "map fst ?G"]) simp
qed


lemma fetched_batches_append: "fetched_batches (xs @ ys) = fetched_batches xs @ fetched_batches ys"
  by (induction xs rule: fetched_batches.induct) simp_all

lemma marked_batches_append: "marked_batches (xs @ ys) = marked_batches xs @ marked_batches ys"
  by (induction xs rule: marked_batches.induct) simp_all

lemma claim_count_append: "claim_count (xs @ ys) = claim_count xs + claim_count ys"
  by (induction xs rule: claim_count.induct) simp_all

lemma filter_not_in_prefix:
  "set T \<inter> set D = {} \<Longrightarrow> filter (\<lambda>m. m \<notin> set T) (T @ D) = D"
  by (auto simp: filter_empty_conv filter_id_conv)

lemma filter_not_in_take:
  assumes "distinct Q"
  shows "filter (\<lambda>m. m \<notin> set (take B Q)) Q = drop B Q"
proof -
  from assms have "distinct (take B Q @ drop B Q)" by simp
  then have "set (take B Q) \<inter> set (drop B Q) = {}" by (simp only: distinct_append)
  from filter_not_in_prefix[OF this] show ?thesis by simp
qed

lemma same_set_length: "distinct xs \<Longrightarrow> distinct ys \<Longrightarrow> set xs = set ys \<Longrightarrow> length xs = length ys"
  by (metis distinct_card)

lemma syncLoop_spec:
  assumes B: "0 < B"
  shows "distinct Q \<Longrightarrow> store_pending w t = Q \<Longrightarrow>
    \<forall>memberId \<in> set Q.
       \<exists>p. prefixData rt (filter (\<lambda>r. member_id r = memberId) (store_rows w)) attrs = Inr p \<Longrightarrow>
    \<forall>e \<in> set tr. snd e = Resolved \<Longrightarrow>
    (length (pages B Q) \<le> fuel \<longrightarrow>
       (\<exists>st'. syncLoop fuel (spec_service rt) t B attrs (take B Q) count \<lparr>world = w, calls = tr\<rparr>
                = (Returned (count + length Q), st') \<and>
             store_pending (world st') t = [] \<and>
             fetched_batches (calls st') = fetched_batches tr @ pages B Q \<and>
             map set (marked_batches (calls st')) =
               map set (marked_batches tr) @ map set (pages B Q) \<and>
             claim_count (calls st') = claim_count tr + length (pages B Q) \<and>
             (\<forall>e \<in> set (calls st'). snd e = Resolved))) \<and>
    (fuel < length (pages B Q) \<longrightarrow>
       fst (syncLoop fuel (spec_service rt) t B attrs (take B Q) count \<lparr>world = w, calls = tr\<rparr>)
         = OutOfFuel)"
proof (induction fuel arbitrary: Q w tr count)
  case 0
  show ?case
  proof (cases Q)
    case Nil
    with 0 show ?thesis by simp
  next
    case (Cons q qs)
    with B obtain m ms where "take B Q = m # ms" by (cases B) auto
    with Cons B show ?thesis by (simp add: pages_Cons)
  qed
next
  case (Suc fuel)
  show ?case
  proof (cases Q)
    case Nil
    with Suc.prems show ?thesis by simp
  next
    case (Cons q qs)
    with B obtain m ms where tk: "take B Q = m # ms" by (cases B) auto
    from Cons B have pg: "pages B Q = take B Q # pages B (drop B Q)" by (simp add: pages_Cons)
    have flat_tk: "\<forall>memberId \<in> set (m # ms).
        \<exists>p. prefixData rt (filter (\<lambda>r. member_id r = memberId) (store_rows w)) attrs = Inr p"
      using Suc.prems(3) tk by (metis in_set_takeD)
    from syncBatch_spec[OF _ flat_tk, of count tr] obtain prepared marked
      where sb: "syncBatch (spec_service rt) attrs (m # ms) count \<lparr>world = w, calls = tr\<rparr> =
        (Inr (count + length marked),
         \<lparr>world = w\<lparr>index_documents :=
                      fold (\<lambda>r docs. AList.update (req_id r) (body r) docs) prepared
                        (index_documents w),
                    store_pending := (\<lambda>t. filter (\<lambda>m'. m' \<notin> set (m # ms)) (store_pending w t))\<rparr>,
          calls = tr @ [(GetMemberData (m # ms), Resolved), (BulkIndex MEMBERS prepared, Resolved),
                        (MarkSynced marked, Resolved)]\<rparr>)"
        and ms: "set marked = set (m # ms)" and dm: "distinct marked"
      by blast
    let ?w1 = "w\<lparr>index_documents :=
                      fold (\<lambda>r docs. AList.update (req_id r) (body r) docs) prepared
                        (index_documents w),
                    store_pending := (\<lambda>t. filter (\<lambda>m'. m' \<notin> set (m # ms)) (store_pending w t))\<rparr>"
    let ?tr1 = "tr @ [(GetMemberData (m # ms), Resolved), (BulkIndex MEMBERS prepared, Resolved),
                        (MarkSynced marked, Resolved),
                        (GetTenantMembersForSync t 1 B, Resolved)]"
    have pend: "store_pending ?w1 t = drop B Q"
      using filter_not_in_take[OF Suc.prems(1), of B] tk Suc.prems(2) by simp
    have lm: "length marked = length (take B Q)"
      using same_set_length[OF dm _ ms[folded tk]] Suc.prems(1) by simp
    have step: "syncLoop (Suc fuel) (spec_service rt) t B attrs (take B Q) count
          \<lparr>world = w, calls = tr\<rparr> =
        syncLoop fuel (spec_service rt) t B attrs (take B (drop B Q)) (count + length marked)
          \<lparr>world = ?w1, calls = ?tr1\<rparr>"
      using sb pend by (simp add: tk await_def spec_claimPending_def)
    have d': "distinct (drop B Q)" using Suc.prems(1) by simp
    have flat': "\<forall>memberId \<in> set (drop B Q).
       \<exists>p. prefixData rt (filter (\<lambda>r. member_id r = memberId) (store_rows ?w1)) attrs = Inr p"
      using Suc.prems(3) by (auto dest: in_set_dropD)
    have res': "\<forall>e \<in> set ?tr1. snd e = Resolved" using Suc.prems(4) by auto
    note ih = Suc.IH[OF d' pend flat' res', of "count + length marked"]
    have len: "length (take B Q) + length (drop B Q) = length Q"
      by (metis append_take_drop_id length_append)
    show ?thesis
    proof (intro conjI impI)
      assume "length (pages B Q) \<le> Suc fuel"
      with pg have "length (pages B (drop B Q)) \<le> fuel" by simp
      with ih obtain st' where
        r: "syncLoop fuel (spec_service rt) t B attrs (take B (drop B Q)) (count + length marked)
              \<lparr>world = ?w1, calls = ?tr1\<rparr> = (Returned (count + length marked + length (drop B Q)), st')"
        and p: "store_pending (world st') t = []"
        and f: "fetched_batches (calls st') = fetched_batches ?tr1 @ pages B (drop B Q)"
        and mk: "map set (marked_batches (calls st')) =
               map set (marked_batches ?tr1) @ map set (pages B (drop B Q))"
        and c: "claim_count (calls st') = claim_count ?tr1 + length (pages B (drop B Q))"
        and rs: "\<forall>e \<in> set (calls st'). snd e = Resolved"
        by auto
      have "count + length marked + length (drop B Q) = count + length Q"
        using lm len by simp
      with r step have
        "syncLoop (Suc fuel) (spec_service rt) t B attrs (take B Q) count \<lparr>world = w, calls = tr\<rparr>
                = (Returned (count + length Q), st')" by simp
      moreover from f have "fetched_batches (calls st') = fetched_batches tr @ pages B Q"
        by (simp add: fetched_batches_append pg tk)
      moreover from mk ms have "map set (marked_batches (calls st')) =
               map set (marked_batches tr) @ map set (pages B Q)"
        by (simp add: marked_batches_append pg tk)
      moreover from c have "claim_count (calls st') = claim_count tr + length (pages B Q)"
        by (simp add: claim_count_append pg)
      ultimately show "\<exists>st'. syncLoop (Suc fuel) (spec_service rt) t B attrs (take B Q) count
                \<lparr>world = w, calls = tr\<rparr> = (Returned (count + length Q), st') \<and>
             store_pending (world st') t = [] \<and>
             fetched_batches (calls st') = fetched_batches tr @ pages B Q \<and>
             map set (marked_batches (calls st')) =
               map set (marked_batches tr) @ map set (pages B Q) \<and>
             claim_count (calls st') = claim_count tr + length (pages B Q) \<and>
             (\<forall>e \<in> set (calls st'). snd e = Resolved)"
        using p rs by blast
    next
      assume "Suc fuel < length (pages B Q)"
      with pg have "fuel < length (pages B (drop B Q))" by simp
      with ih step show "fst (syncLoop (Suc fuel) (spec_service rt) t B attrs (take B Q) count
          \<lparr>world = w, calls = tr\<rparr>) = OutOfFuel" by simp
    qed
  qed
qed


lemma pages_bounds: "0 < B \<Longrightarrow> pg \<in> set (pages B xs) \<Longrightarrow> pg \<noteq> [] \<and> length pg \<le> B"
proof (induction B xs rule: pages.induct)
  case (1 B xs)
  show ?case
  proof (cases "xs = []")
    case True
    with "1.prems" show ?thesis by simp
  next
    case False
    with "1.prems" have "pg = take B xs \<or> pg \<in> set (pages B (drop B xs))"
      by (simp add: pages_Cons)
    then show ?thesis
    proof
      assume "pg = take B xs"
      with False "1.prems" show ?thesis by (cases xs; cases B) auto
    next
      assume "pg \<in> set (pages B (drop B xs))"
      with "1.IH" "1.prems" False show ?thesis by simp
    qed
  qed
qed

text \<open>
  C6. Over the specification's store, with a positive batch size, a queue without
  repeats and every queued id having snapshots that flatten (so that each claimed batch
  is written and marked synced): a full resync claims the queue in pages of
  \<open>batchSize\<close>, the last one possibly shorter, each page non-empty; it fetches exactly
  those pages, marks exactly their ids, makes one claim more than there are pages (the
  last one, which comes back empty, ends the loop), returns the length of the queue as its
  count and leaves the queue empty. The loop needs one iteration per page, neither fewer
  nor more, and the number of pages is the queue's length divided by \<open>batchSize\<close>,
  rounded up.
\<close>

theorem full_resync_pages:
  assumes "0 < batchSize"
    and "distinct (initial_queue reset tenantId w)"
    and "\<forall>memberId \<in> set (initial_queue reset tenantId w).
           \<exists>p. prefixData rt (filter (\<lambda>r. member_id r = memberId) (store_rows w))
                  (store_schemas w tenantId) = Inr p"
  shows "(length (pages batchSize (initial_queue reset tenantId w)) \<le> fuel \<longrightarrow>
           (\<exists>st'. syncTenantMembers fuel (spec_service rt) tenantId reset batchSize
                     \<lparr>world = w, calls = []\<rparr>
                   = (Returned (length (initial_queue reset tenantId w)), st') \<and>
                 store_pending (world st') tenantId = [] \<and>
                 fetched_batches (calls st') = pages batchSize (initial_queue reset tenantId w) \<and>
                 map set (marked_batches (calls st')) =
                   map set (pages batchSize (initial_queue reset tenantId w)) \<and>
                 claim_count (calls st') =
                   length (pages batchSize (initial_queue reset tenantId w)) + 1 \<and>
                 (\<forall>e \<in> set (calls st'). snd e = Resolved))) \<and>
         (fuel < length (pages batchSize (initial_queue reset tenantId w)) \<longrightarrow>
            fst (syncTenantMembers fuel (spec_service rt) tenantId reset batchSize
                   \<lparr>world = w, calls = []\<rparr>) = OutOfFuel) \<and>
         length (pages batchSize (initial_queue reset tenantId w)) =
           (length (initial_queue reset tenantId w) + batchSize - 1) div batchSize \<and>
         (\<forall>pg \<in> set (pages batchSize (initial_queue reset tenantId w)).
            pg \<noteq> [] \<and> length pg \<le> batchSize)"
proof -
  let ?Q = "initial_queue reset tenantId w"
  let ?w0 = "if reset then w\<lparr>store_pending := (store_pending w)(tenantId := ?Q)\<rparr> else w"
  let ?tr0 = "(if reset then [(SetTenanMembersForSync tenantId, Resolved)] else []) @
      [(GetTenantMemberAttributes tenantId, Resolved),
       (GetTenantMembersForSync tenantId 1 batchSize, Resolved)]"
  have pend: "store_pending ?w0 tenantId = ?Q" by (simp add: initial_queue_def)
  have rows: "store_rows ?w0 = store_rows w" and sch: "store_schemas ?w0 = store_schemas w"
    by simp_all
  have start: "syncTenantMembers fuel (spec_service rt) tenantId reset batchSize
       \<lparr>world = w, calls = []\<rparr> =
     syncLoop fuel (spec_service rt) tenantId batchSize (store_schemas w tenantId)
       (take batchSize ?Q) 0 \<lparr>world = ?w0, calls = ?tr0\<rparr>"
    by (simp add: syncTenantMembers_def await_def spec_setPendingQueue_def
        spec_fetchAttributeSchema_def spec_claimPending_def initial_queue_def)
  have flat: "\<forall>memberId \<in> set ?Q.
       \<exists>p. prefixData rt (filter (\<lambda>r. member_id r = memberId) (store_rows ?w0))
              (store_schemas w tenantId) = Inr p"
    using assms(3) rows by simp
  have res: "\<forall>e \<in> set ?tr0. snd e = Resolved" by simp
  have f0: "fetched_batches ?tr0 = []" and m0: "marked_batches ?tr0 = []"
    and c0: "claim_count ?tr0 = 1" by simp_all
  from syncLoop_spec[OF assms(1,2) pend flat res, of fuel 0]
  have loop: "(length (pages batchSize ?Q) \<le> fuel \<longrightarrow>
       (\<exists>st'. syncLoop fuel (spec_service rt) tenantId batchSize (store_schemas w tenantId)
                 (take batchSize ?Q) 0 \<lparr>world = ?w0, calls = ?tr0\<rparr>
                = (Returned (length ?Q), st') \<and>
             store_pending (world st') tenantId = [] \<and>
             fetched_batches (calls st') = pages batchSize ?Q \<and>
             map set (marked_batches (calls st')) = map set (pages batchSize ?Q) \<and>
             claim_count (calls st') = length (pages batchSize ?Q) + 1 \<and>
             (\<forall>e \<in> set (calls st'). snd e = Resolved))) \<and>
    (fuel < length (pages batchSize ?Q) \<longrightarrow>
       fst (syncLoop fuel (spec_service rt) tenantId batchSize (store_schemas w tenantId)
              (take batchSize ?Q) 0 \<lparr>world = ?w0, calls = ?tr0\<rparr>) = OutOfFuel)"
    unfolding f0 m0 c0 by simp
  from loop start length_pages[OF assms(1), of ?Q] pages_bounds[OF assms(1), of _ ?Q]
  show ?thesis by (simp only:) blast
qed


theorem full_resync_pages_witness:
  "0 < (2::nat) \<and>
   distinct (initial_queue True ''t1'' example_world) \<and>
   pages 2 (initial_queue True ''t1'' example_world) = [[''m1'', ''m2''], [''m3'']] \<and>
   fst (syncTenantMembers 2 (spec_service example_runtime) ''t1'' True 2
          \<lparr>world = example_world, calls = []\<rparr>) = Returned 3 \<and>
   fetched_batches
     (calls (snd (syncTenantMembers 2 (spec_service example_runtime) ''t1'' True 2
                    \<lparr>world = example_world, calls = []\<rparr>))) = [[''m1'', ''m2''], [''m3'']] \<and>
   claim_count
     (calls (snd (syncTenantMembers 2 (spec_service example_runtime) ''t1'' True 2
                    \<lparr>world = example_world, calls = []\<rparr>))) = 3 \<and>
   fst (syncTenantMembers 1 (spec_service example_runtime) ''t1'' True 2
          \<lparr>world = example_world, calls = []\<rparr>) = OutOfFuel"
proof -
  let ?Q = "initial_queue True ''t1'' example_world"
  have q: "?Q = [''m1'', ''m2'', ''m3'']" by code_simp
  have pg: "pages 2 ?Q = [[''m1'', ''m2''], [''m3'']]" by code_simp
  have b: "0 < (2::nat)" by simp
  have d: "distinct ?Q" by (simp add: q)
  have "list_all (\<lambda>memberId.
          \<not> isl (prefixData example_runtime
                   (filter (\<lambda>r. member_id r = memberId) (store_rows example_world))
                   (store_schemas example_world ''t1''))) [''m1'', ''m2'', ''m3'']"
    by code_simp
  then have fl: "\<forall>memberId \<in> set ?Q.
      \<exists>p. prefixData example_runtime
             (filter (\<lambda>r. member_id r = memberId) (store_rows example_world))
             (store_schemas example_world ''t1'') = Inr p"
    unfolding q list_all_iff by (metis sum.collapse(2))
  note T2 = full_resync_pages[OF b d fl, of 2]
  note T1 = full_resync_pages[OF b d fl, of 1]
  from T2 pg obtain st' where
    r: "syncTenantMembers 2 (spec_service example_runtime) ''t1'' True 2
          \<lparr>world = example_world, calls = []\<rparr> = (Returned (length ?Q), st')"
    and f: "fetched_batches (calls st') = pages 2 ?Q"
    and c: "claim_count (calls st') = length (pages 2 ?Q) + 1"
    by auto
  from T1 pg have o: "fst (syncTenantMembers 1 (spec_service example_runtime) ''t1'' True 2
          \<lparr>world = example_world, calls = []\<rparr>) = OutOfFuel" by simp
  from r f c o pg q b d show ?thesis by simp
qed

section \<open>Orphan cleanup over the specification's store and index\<close>

lemma removed_ids_append: "removed_ids (xs @ ys) = removed_ids xs @ removed_ids ys"
  by (induction xs rule: removed_ids.induct) simp_all

lemma checked_pages_append: "checked_pages (xs @ ys) = checked_pages xs @ checked_pages ys"
  by (induction xs rule: checked_pages.induct) simp_all

lemma search_calls_append: "search_calls (xs @ ys) = search_calls xs @ search_calls ys"
  by (induction xs rule: search_calls.induct) simp_all

lemma removed_ids_removals [simp]:
  "removed_ids (map (\<lambda>memberId. (RemoveFromIndex memberId MEMBERS, Resolved)) ids) = ids"
  by (induction ids) simp_all

lemma checked_pages_removals [simp]:
  "checked_pages (map (\<lambda>memberId. (RemoveFromIndex memberId MEMBERS, Resolved)) ids) = []"
  by (induction ids) simp_all

lemma search_calls_removals [simp]:
  "search_calls (map (\<lambda>memberId. (RemoveFromIndex memberId MEMBERS, Resolved)) ids) = []"
  by (induction ids) simp_all

lemma removed_ids_removals_comp [simp]:
  "removed_ids (map ((\<lambda>memberId. (RemoveFromIndex memberId MEMBERS, Resolved)) \<circ> g) xs) = map g xs"
  by (induction xs) simp_all

lemma checked_pages_removals_comp [simp]:
  "checked_pages (map ((\<lambda>memberId. (RemoveFromIndex memberId MEMBERS, Resolved)) \<circ> g) xs) = []"
  by (induction xs) simp_all

lemma search_calls_removals_comp [simp]:
  "search_calls (map ((\<lambda>memberId. (RemoveFromIndex memberId MEMBERS, Resolved)) \<circ> g) xs) = []"
  by (induction xs) simp_all

lemma spec_search_cleanup:
  "spec_search MEMBERS (cleanup_query tenantId) pageSize cleanup_sort cursor cleanup_include v =
     (Inr (map search_hit
            (take pageSize
              (sort_key doc_joinedAt
                (filter (\<lambda>d. doc_of_tenant tenantId d \<and>
                              (case cursor of None \<Rightarrow> True | Some c \<Rightarrow> c < doc_joinedAt d))
                   (index_documents v))))), v)"
  by (cases cursor)
     (simp_all add: spec_search_def cleanup_query_def cleanup_sort_def doc_joinedAt_def[abs_def]
        doc_of_tenant_def)

lemma removeMembers_spec:
  "removeMembers (spec_service rt) ids \<lparr>world = v, calls = tr\<rparr> =
     (Inr (),
      \<lparr>world = v\<lparr>index_documents := filter (\<lambda>d. fst d \<notin> set ids) (index_documents v)\<rparr>,
       calls = tr @ map (\<lambda>memberId. (RemoveFromIndex memberId MEMBERS, Resolved)) ids\<rparr>)"
proof (induction ids arbitrary: v tr)
  case Nil
  then show ?case by simp
next
  case (Cons a ids)
  have "filter (\<lambda>d. fst d \<notin> set ids) (filter (\<lambda>d. fst d \<noteq> a) (index_documents v)) =
      filter (\<lambda>d. fst d \<notin> set (a # ids)) (index_documents v)"
    by (auto intro: filter_cong)
  with Cons show ?case
    by (simp add: removeMember_def await_def spec_delete_def)
qed

lemma filter_split_pages:
  "\<forall>d \<in> set P. \<not> Q d \<Longrightarrow> \<forall>d \<in> set D. Q d \<Longrightarrow> filter Q (P @ D) = D"
  by (simp add: filter_empty_conv filter_id_conv)

lemma filter_after_last_of_page:
  fixes key :: "'a \<Rightarrow> 'k::linorder"
  assumes s: "sorted (map key R)"
    and ne: "take n R \<noteq> []"
    and br: "drop n R \<noteq> [] \<longrightarrow> key (last (take n R)) < key (hd (drop n R))"
  shows "filter (\<lambda>d. key (last (take n R)) < key d) R = drop n R"
proof -
  let ?P = "take n R" and ?D = "drop n R"
  let ?c = "key (last ?P)"
  have R: "R = ?P @ ?D" by simp
  from s have sP: "sorted (map key ?P)" and sD: "sorted (map key ?D)"
    by (simp_all add: sorted_wrt_take sorted_wrt_drop take_map[symmetric] drop_map[symmetric])
  have le: "key d \<le> ?c" if "d \<in> set ?P" for d
  proof -
    from ne have "?P = butlast ?P @ [last ?P]" by simp
    then have "map key ?P = map key (butlast ?P) @ [?c]" by (metis list.simps(8,9) map_append)
    with sP have "sorted (map key (butlast ?P) @ [?c])" by simp
    then have b: "\<forall>x \<in> set (butlast ?P). key x \<le> ?c" by (simp add: sorted_append)
    from that ne have "d \<in> set (butlast ?P) \<or> d = last ?P"
      by (metis Un_iff append_butlast_last_id empty_iff empty_set insert_iff list.set(2) set_append)
    with b show ?thesis by auto
  qed
  have gt: "?c < key d" if "d \<in> set ?D" for d
  proof -
    from that have dne: "?D \<noteq> []" by auto
    then have "?D = hd ?D # tl ?D" by simp
    then have "map key ?D = key (hd ?D) # map key (tl ?D)" by (metis list.simps(9))
    with sD have "sorted (key (hd ?D) # map key (tl ?D))" by simp
    then have b: "\<forall>x \<in> set (tl ?D). key (hd ?D) \<le> key x" by simp
    from that dne have "d = hd ?D \<or> d \<in> set (tl ?D)" by (metis list.collapse set_ConsD)
    with b have "key (hd ?D) \<le> key d" by auto
    with br dne show ?thesis by simp
  qed
  have "\<forall>d \<in> set ?P. \<not> ?c < key d" using le by (auto simp: not_less)
  moreover have "\<forall>d \<in> set ?D. ?c < key d" using gt by blast
  ultimately have "filter (\<lambda>d. ?c < key d) (?P @ ?D) = ?D" by (rule filter_split_pages)
  then show ?thesis by simp
qed


lemma pageSize_pos: "0 < pageSize"
  by (simp add: pageSize_def)

lemma page_breaks_step:
  assumes "0 < n" and "R \<noteq> []" and "page_breaks_strict key (pages n R)"
  shows "(drop n R \<noteq> [] \<longrightarrow> key (last (take n R)) < key (hd (drop n R))) \<and>
         page_breaks_strict key (pages n (drop n R))"
proof (cases "drop n R = []")
  case True
  then show ?thesis by simp
next
  case False
  with assms(1) have "pages n (drop n R) = take n (drop n R) # pages n (drop n (drop n R))"
    by (rule pages_Cons)
  moreover from assms(1,2) have "pages n R = take n R # pages n (drop n R)" by (rule pages_Cons)
  ultimately have "key (last (take n R)) < key (hd (take n (drop n R)))"
    and "page_breaks_strict key (pages n (drop n R))"
    using assms(3) by simp_all
  moreover from assms(1) have "hd (take n (drop n R)) = hd (drop n R)" by (simp add: hd_take)
  ultimately show ?thesis by simp
qed

lemma distinct_ids_sort_filter:
  assumes "distinct (map fst xs)"
  shows "distinct (map fst (sort_key k (filter Q xs)))"
proof -
  from assms have "distinct (map fst (filter Q xs))" by (rule distinct_map_filter)
  then show ?thesis by (simp add: distinct_map)
qed

lemma same_id_same_doc:
  assumes "distinct (map fst xs)" and "d \<in> set xs" and "d' \<in> set xs" and "fst d = fst d'"
  shows "d = d'"
  using assms by (auto simp: distinct_map dest: inj_onD)


lemma cleanup_next_page:
  assumes dist: "distinct (map fst docs)"
    and R: "R = sort_key doc_joinedAt
                  (filter (\<lambda>d. doc_of_tenant t d \<and>
                                (case c of None \<Rightarrow> True | Some c0 \<Rightarrow> c0 < doc_joinedAt d)) docs)"
    and ne: "R \<noteq> []"
    and br: "page_breaks_strict doc_joinedAt (pages pageSize R)"
    and rm: "set toRemove \<subseteq> fst ` set (take pageSize R)"
  shows "sort_key doc_joinedAt
           (filter (\<lambda>d. doc_of_tenant t d \<and> doc_joinedAt (last (take pageSize R)) < doc_joinedAt d)
              (filter (\<lambda>d. fst d \<notin> set toRemove) docs))
         = drop pageSize R"
proof -
  let ?P = "take pageSize R" and ?D = "drop pageSize R"
  let ?c' = "doc_joinedAt (last ?P)"
  let ?Z = "\<lambda>d. doc_of_tenant t d \<and> (case c of None \<Rightarrow> True | Some c0 \<Rightarrow> c0 < doc_joinedAt d)"
  from ne pageSize_pos have Pne: "?P \<noteq> []" by (cases R) (simp_all add: pageSize_def)
  then have "last ?P \<in> set ?P" by (rule last_in_set)
  then have "last ?P \<in> set R" by (rule in_set_takeD)
  then have lastZ: "?Z (last ?P)" unfolding R by simp
  have after: "?Z d" if "doc_of_tenant t d" and "?c' < doc_joinedAt d" for d
  proof (cases c)
    case None
    with that show ?thesis by simp
  next
    case (Some c0)
    with lastZ have "c0 < ?c'" by simp
    with that Some show ?thesis by simp
  qed
  have "filter (\<lambda>d. doc_of_tenant t d \<and> ?c' < doc_joinedAt d)
          (filter (\<lambda>d. fst d \<notin> set toRemove) docs) =
        filter (\<lambda>d. fst d \<notin> set toRemove) (filter (\<lambda>d. ?c' < doc_joinedAt d) (filter ?Z docs))"
    using after by (auto intro!: filter_cong)
  then have "sort_key doc_joinedAt
           (filter (\<lambda>d. doc_of_tenant t d \<and> ?c' < doc_joinedAt d)
              (filter (\<lambda>d. fst d \<notin> set toRemove) docs)) =
        filter (\<lambda>d. fst d \<notin> set toRemove) (filter (\<lambda>d. ?c' < doc_joinedAt d) R)"
    unfolding R by (simp only: filter_sort)
  also have "filter (\<lambda>d. ?c' < doc_joinedAt d) R = ?D"
  proof (rule filter_after_last_of_page)
    show "sorted (map doc_joinedAt R)" unfolding R by (rule sorted_sort_key)
    show "?P \<noteq> []" by (rule Pne)
    show "?D \<noteq> [] \<longrightarrow> ?c' < doc_joinedAt (hd ?D)"
      using page_breaks_step[OF pageSize_pos ne br] by blast
  qed
  also have "filter (\<lambda>d. fst d \<notin> set toRemove) ?D = ?D"
  proof -
    have "distinct (map fst R)" unfolding R using dist by (rule distinct_ids_sort_filter)
    then have "distinct (map fst ?P @ map fst ?D)"
      by (metis append_take_drop_id map_append)
    then have "fst ` set ?P \<inter> fst ` set ?D = {}" by simp
    with rm have "\<forall>d \<in> set ?D. fst d \<notin> set toRemove" by blast
    then show ?thesis by (simp add: filter_id_conv)
  qed
  finally show ?thesis .
qed


lemma absent_ids:
  "filter (\<lambda>memberId. memberId \<notin> set (filter (\<lambda>memberId. (memberId, t) \<in> M) (map fst P)))
     (map fst P) = map fst (filter (\<lambda>d. (fst d, t) \<notin> M) P)"
proof -
  have "filter (\<lambda>memberId. memberId \<notin> set (filter (\<lambda>memberId. (memberId, t) \<in> M) (map fst P)))
     (map fst P) = filter (\<lambda>memberId. (memberId, t) \<notin> M) (map fst P)"
    by (rule filter_cong) auto
  also have "\<dots> = map fst (filter (\<lambda>d. (fst d, t) \<notin> M) P)"
    by (simp add: filter_map comp_def)
  finally show ?thesis .
qed

lemma hit_ids: "map hit_id (map search_hit P) = map fst P"
  by (simp add: search_hit_def)

lemma last_hit: "P \<noteq> [] \<Longrightarrow> hit_date_joinedAt (last (map search_hit P)) = doc_joinedAt (last P)"
  by (simp add: last_map search_hit_def doc_joinedAt_def)

lemma cleanup_iteration:
  assumes "P \<noteq> []"
  shows "cleanupLoop (Suc fuel) (spec_service rt) t (map search_hit P) processed
           \<lparr>world = v, calls = tr\<rparr> =
     cleanupLoop fuel (spec_service rt) t
       (map search_hit
          (take pageSize
             (sort_key doc_joinedAt
                (filter (\<lambda>d. doc_of_tenant t d \<and> doc_joinedAt (last P) < doc_joinedAt d)
                   (filter (\<lambda>d. fst d \<notin> set (map fst (filter (\<lambda>d. (fst d, t) \<notin> set (store_members v)) P)))
                      (index_documents v))))))
       (processed + length P)
       \<lparr>world = v\<lparr>index_documents :=
                    filter (\<lambda>d. fst d \<notin> set (map fst (filter (\<lambda>d. (fst d, t) \<notin> set (store_members v)) P)))
                      (index_documents v)\<rparr>,
        calls = tr @ (CheckMembersExists t (map fst P), Resolved) #
                  map (\<lambda>memberId. (RemoveFromIndex memberId MEMBERS, Resolved))
                    (map fst (filter (\<lambda>d. (fst d, t) \<notin> set (store_members v)) P)) @
                  [(Search MEMBERS (cleanup_query t) pageSize cleanup_sort
                      (Some (doc_joinedAt (last P))) cleanup_include, Resolved)]\<rparr>"
proof -
  from assms obtain r rs where rr: "map search_hit P = r # rs" by (cases P) auto
  let ?rem = "map fst (filter (\<lambda>d. (fst d, t) \<notin> set (store_members v)) P)"
  have ids: "map hit_id (r # rs) = map fst P" using hit_ids[of P] rr by simp
  have lst: "hit_date_joinedAt (last (r # rs)) = doc_joinedAt (last P)"
    using last_hit[OF assms] rr by simp
  have len: "length (r # rs) = length P" using rr by (metis length_map)
  have chk: "await (CheckMembersExists t (map fst P)) (spec_existingIds t (map fst P))
      \<lparr>world = v, calls = tr\<rparr> =
      (Inr (filter (\<lambda>memberId. (memberId, t) \<in> set (store_members v)) (map fst P)),
       \<lparr>world = v, calls = tr @ [(CheckMembersExists t (map fst P), Resolved)]\<rparr>)"
    by (simp add: await_def spec_existingIds_def)
  have rmv: "(if ?rem \<noteq> [] then removeMembers (spec_service rt) ?rem
         \<lparr>world = v, calls = tr @ [(CheckMembersExists t (map fst P), Resolved)]\<rparr>
       else (Inr (), \<lparr>world = v, calls = tr @ [(CheckMembersExists t (map fst P), Resolved)]\<rparr>)) =
      (Inr (),
       \<lparr>world = v\<lparr>index_documents := filter (\<lambda>d. fst d \<notin> set ?rem) (index_documents v)\<rparr>,
        calls = (tr @ [(CheckMembersExists t (map fst P), Resolved)]) @
                  map (\<lambda>memberId. (RemoveFromIndex memberId MEMBERS, Resolved)) ?rem\<rparr>)"
    by (cases "?rem = []") (simp_all only: removeMembers_spec, simp_all)
  show ?thesis
    unfolding rr
    apply (subst cleanupLoop.simps)
    apply (simp only: Let_def ids lst len spec_service_sel chk prod.case sum.case absent_ids rmv)
    apply (simp add: await_def spec_search_cleanup)
    done
qed


lemma removed_in_page:
  assumes dist: "distinct (map fst docs)" and sub: "set P \<subseteq> set docs" and d: "d \<in> set docs"
  shows "fst d \<in> set (map fst (filter Q P)) \<longleftrightarrow> d \<in> set P \<and> Q d"
proof
  assume "fst d \<in> set (map fst (filter Q P))"
  then obtain d' where d': "d' \<in> set P" "Q d'" "fst d' = fst d" by auto
  with sub have "d' \<in> set docs" by blast
  from same_id_same_doc[OF dist d this] d'(3) have "d = d'" by simp
  with d' show "d \<in> set P \<and> Q d" by simp
next
  assume "d \<in> set P \<and> Q d"
  then show "fst d \<in> set (map fst (filter Q P))" by force
qed

lemma cleanupLoop_spec:
  "distinct (map fst (index_documents v)) \<Longrightarrow>
   R = sort_key doc_joinedAt
         (filter (\<lambda>d. doc_of_tenant t d \<and>
                       (case c of None \<Rightarrow> True | Some c0 \<Rightarrow> c0 < doc_joinedAt d))
            (index_documents v)) \<Longrightarrow>
   page_breaks_strict doc_joinedAt (pages pageSize R) \<Longrightarrow>
   \<forall>e \<in> set tr. snd e = Resolved \<Longrightarrow>
   (length (pages pageSize R) \<le> fuel \<longrightarrow>
      (\<exists>st'. cleanupLoop fuel (spec_service rt) t (map search_hit (take pageSize R)) processed
                \<lparr>world = v, calls = tr\<rparr> = (Returned (processed + length R), st') \<and>
            world st' =
              v\<lparr>index_documents :=
                  filter (\<lambda>d. \<not> (d \<in> set R \<and> (fst d, t) \<notin> set (store_members v)))
                    (index_documents v)\<rparr> \<and>
            removed_ids (calls st') =
              removed_ids tr @ map fst (filter (\<lambda>d. (fst d, t) \<notin> set (store_members v)) R) \<and>
            checked_pages (calls st') =
              checked_pages tr @ map (\<lambda>p. (t, map fst p)) (pages pageSize R) \<and>
            search_calls (calls st') =
              search_calls tr @
              map (\<lambda>p. Search MEMBERS (cleanup_query t) pageSize cleanup_sort
                         (Some (doc_joinedAt (last p))) cleanup_include)
                (pages pageSize R) \<and>
            (\<forall>e \<in> set (calls st'). snd e = Resolved))) \<and>
   (fuel < length (pages pageSize R) \<longrightarrow>
      fst (cleanupLoop fuel (spec_service rt) t (map search_hit (take pageSize R)) processed
             \<lparr>world = v, calls = tr\<rparr>) = OutOfFuel)"
proof (induction fuel arbitrary: v R c tr processed)
  case 0
  show ?case
  proof (cases "R = []")
    case True
    with "0.prems"(4) show ?thesis by simp
  next
    case False
    with pageSize_pos obtain r rs where "map search_hit (take pageSize R) = r # rs"
      by (cases R) (auto simp: pageSize_def)
    with False pageSize_pos show ?thesis by (simp add: pages_Cons)
  qed
next
  case (Suc fuel)
  show ?case
  proof (cases "R = []")
    case True
    with Suc.prems(4) show ?thesis by simp
  next
    case False
    let ?P = "take pageSize R" and ?D = "drop pageSize R"
    let ?orph = "\<lambda>d. (fst d, t) \<notin> set (store_members v)"
    let ?rem = "map fst (filter ?orph ?P)"
    let ?docs1 = "filter (\<lambda>d. fst d \<notin> set ?rem) (index_documents v)"
    let ?v1 = "v\<lparr>index_documents := ?docs1\<rparr>"
    let ?c' = "doc_joinedAt (last ?P)"
    let ?tr1 = "tr @ (CheckMembersExists t (map fst ?P), Resolved) #
                  map (\<lambda>memberId. (RemoveFromIndex memberId MEMBERS, Resolved)) ?rem @
                  [(Search MEMBERS (cleanup_query t) pageSize cleanup_sort (Some ?c')
                      cleanup_include, Resolved)]"
    from False pageSize_pos have Pne: "?P \<noteq> []" by (cases R) (simp_all add: pageSize_def)
    from False pageSize_pos have pg: "pages pageSize R = ?P # pages pageSize ?D"
      by (simp add: pages_Cons)
    have rm: "set ?rem \<subseteq> fst ` set ?P" by auto
    note np = cleanup_next_page[OF Suc.prems(1,2) False Suc.prems(3) rm]
    have step: "cleanupLoop (Suc fuel) (spec_service rt) t (map search_hit ?P) processed
           \<lparr>world = v, calls = tr\<rparr> =
        cleanupLoop fuel (spec_service rt) t (map search_hit (take pageSize ?D))
          (processed + length ?P) \<lparr>world = ?v1, calls = ?tr1\<rparr>"
      by (simp only: cleanup_iteration[OF Pne] np)
    have d1: "distinct (map fst (index_documents ?v1))"
      using Suc.prems(1) by (simp add: distinct_map_filter)
    have R1: "?D = sort_key doc_joinedAt
         (filter (\<lambda>d. doc_of_tenant t d \<and>
                       (case Some ?c' of None \<Rightarrow> True | Some c0 \<Rightarrow> c0 < doc_joinedAt d))
            (index_documents ?v1))"
      using np by simp
    have br1: "page_breaks_strict doc_joinedAt (pages pageSize ?D)"
      using page_breaks_step[OF pageSize_pos False Suc.prems(3)] by blast
    have res1: "\<forall>e \<in> set ?tr1. snd e = Resolved" using Suc.prems(4) by auto
    note ih = Suc.IH[OF d1 R1 br1 res1, of "processed + length ?P"]
    have subP: "set ?P \<subseteq> set (index_documents v)"
      unfolding Suc.prems(2) by (auto dest: in_set_takeD)
    have setR: "set R = set ?P \<union> set ?D" by (metis append_take_drop_id set_append)
    have docs: "filter (\<lambda>d. \<not> (d \<in> set ?D \<and> ?orph d)) ?docs1 =
        filter (\<lambda>d. \<not> (d \<in> set R \<and> ?orph d)) (index_documents v)"
      unfolding filter_filter
    proof (rule filter_cong[OF refl])
      fix d assume d: "d \<in> set (index_documents v)"
      from removed_in_page[OF Suc.prems(1) subP d, of ?orph]
      show "(fst d \<notin> set ?rem \<and> \<not> (d \<in> set ?D \<and> ?orph d)) = (\<not> (d \<in> set R \<and> ?orph d))"
        unfolding setR by blast
    qed
    have len: "processed + length ?P + length ?D = processed + length R"
      by (metis add.assoc append_take_drop_id length_append)
    have orphR: "map fst (filter ?orph R) = ?rem @ map fst (filter ?orph ?D)"
      by (metis append_take_drop_id filter_append map_append)
    show ?thesis
    proof (intro conjI impI)
      assume "length (pages pageSize R) \<le> Suc fuel"
      with pg have "length (pages pageSize ?D) \<le> fuel" by simp
      with ih obtain st' where
        r: "cleanupLoop fuel (spec_service rt) t (map search_hit (take pageSize ?D))
              (processed + length ?P) \<lparr>world = ?v1, calls = ?tr1\<rparr> =
            (Returned (processed + length ?P + length ?D), st')"
        and w: "world st' = ?v1\<lparr>index_documents :=
                  filter (\<lambda>d. \<not> (d \<in> set ?D \<and> (fst d, t) \<notin> set (store_members ?v1)))
                    (index_documents ?v1)\<rparr>"
        and rem: "removed_ids (calls st') =
              removed_ids ?tr1 @ map fst (filter (\<lambda>d. (fst d, t) \<notin> set (store_members ?v1)) ?D)"
        and chk: "checked_pages (calls st') =
              checked_pages ?tr1 @ map (\<lambda>p. (t, map fst p)) (pages pageSize ?D)"
        and sch: "search_calls (calls st') =
              search_calls ?tr1 @
              map (\<lambda>p. Search MEMBERS (cleanup_query t) pageSize cleanup_sort
                         (Some (doc_joinedAt (last p))) cleanup_include)
                (pages pageSize ?D)"
        and rs: "\<forall>e \<in> set (calls st'). snd e = Resolved"
        by blast
      have 1: "cleanupLoop (Suc fuel) (spec_service rt) t (map search_hit ?P) processed
                \<lparr>world = v, calls = tr\<rparr> = (Returned (processed + length R), st')"
        using step r len by simp
      have 2: "world st' =
              v\<lparr>index_documents :=
                  filter (\<lambda>d. \<not> (d \<in> set R \<and> ?orph d)) (index_documents v)\<rparr>"
        using w docs by simp
      have 3: "removed_ids (calls st') = removed_ids tr @ map fst (filter ?orph R)"
        using rem by (simp add: removed_ids_append orphR)
      have 4: "checked_pages (calls st') =
              checked_pages tr @ map (\<lambda>p. (t, map fst p)) (pages pageSize R)"
        using chk by (simp add: checked_pages_append pg)
      have 5: "search_calls (calls st') =
              search_calls tr @
              map (\<lambda>p. Search MEMBERS (cleanup_query t) pageSize cleanup_sort
                         (Some (doc_joinedAt (last p))) cleanup_include)
                (pages pageSize R)"
        using sch by (simp add: search_calls_append pg)
      from 1 2 3 4 5 rs
      show "\<exists>st'. cleanupLoop (Suc fuel) (spec_service rt) t (map search_hit ?P) processed
                \<lparr>world = v, calls = tr\<rparr> = (Returned (processed + length R), st') \<and>
            world st' =
              v\<lparr>index_documents :=
                  filter (\<lambda>d. \<not> (d \<in> set R \<and> ?orph d)) (index_documents v)\<rparr> \<and>
            removed_ids (calls st') = removed_ids tr @ map fst (filter ?orph R) \<and>
            checked_pages (calls st') =
              checked_pages tr @ map (\<lambda>p. (t, map fst p)) (pages pageSize R) \<and>
            search_calls (calls st') =
              search_calls tr @
              map (\<lambda>p. Search MEMBERS (cleanup_query t) pageSize cleanup_sort
                         (Some (doc_joinedAt (last p))) cleanup_include)
                (pages pageSize R) \<and>
            (\<forall>e \<in> set (calls st'). snd e = Resolved)"
        by blast
    next
      assume "Suc fuel < length (pages pageSize R)"
      with pg have "fuel < length (pages pageSize ?D)" by simp
      with ih step show "fst (cleanupLoop (Suc fuel) (spec_service rt) t (map search_hit ?P)
          processed \<lparr>world = v, calls = tr\<rparr>) = OutOfFuel" by simp
    qed
  qed
qed

lemma cleanupMemberIndex_first_search:
  "cleanupMemberIndex fuel (spec_service rt) t \<lparr>world = v, calls = []\<rparr> =
     cleanupLoop fuel (spec_service rt) t (map search_hit (take pageSize (scan_order t v))) 0
       \<lparr>world = v,
        calls = [(Search MEMBERS (cleanup_query t) pageSize cleanup_sort None cleanup_include,
                  Resolved)]\<rparr>"
  by (simp add: cleanupMemberIndex_def await_def spec_search_cleanup scan_order_def)

lemma sort_key_tied: "\<forall>x \<in> set xs. f x = c \<Longrightarrow> sort_key f xs = xs"
proof -
  assume a: "\<forall>x \<in> set xs. f x = c"
  have "filter (\<lambda>y. f y = c) (sort_key f xs) = filter (\<lambda>y. f y = c) xs"
    by (rule sort_key_stable)
  moreover have "filter (\<lambda>y. f y = c) (sort_key f xs) = sort_key f xs"
    using a by (simp add: filter_id_conv)
  moreover have "filter (\<lambda>y. f y = c) xs = xs"
    using a by (simp add: filter_id_conv)
  ultimately show ?thesis by simp
qed

lemma cleanup_tied:
  assumes tied: "\<forall>d \<in> set (index_documents v). doc_of_tenant t d \<and> doc_joinedAt d = c"
    and known: "\<forall>d \<in> set (take pageSize (index_documents v)). (fst d, t) \<in> set (store_members v)"
    and some: "index_documents v \<noteq> []"
  shows "cleanupMemberIndex (Suc fuel) (spec_service rt) t \<lparr>world = v, calls = []\<rparr> =
     (Returned (length (take pageSize (index_documents v))),
      \<lparr>world = v,
       calls = [(Search MEMBERS (cleanup_query t) pageSize cleanup_sort None cleanup_include,
                 Resolved),
                (CheckMembersExists t (map fst (take pageSize (index_documents v))), Resolved),
                (Search MEMBERS (cleanup_query t) pageSize cleanup_sort (Some c) cleanup_include,
                 Resolved)]\<rparr>)"
proof -
  let ?D = "index_documents v"
  let ?P = "take pageSize ?D"
  have all: "filter (doc_of_tenant t) ?D = ?D" using tied by (simp add: filter_id_conv)
  have "sort_key doc_joinedAt ?D = ?D" by (rule sort_key_tied[of _ _ c]) (use tied in simp)
  with all have scan: "scan_order t v = ?D" by (simp add: scan_order_def)
  have ne: "?P \<noteq> []" using some pageSize_pos by (cases ?D) (simp_all add: take_Cons')
  have "last ?P \<in> set ?P" using ne by (rule last_in_set)
  then have "last ?P \<in> set ?D" by (rule in_set_takeD)
  with tied have lastc: "doc_joinedAt (last ?P) = c" by simp
  have none: "filter (\<lambda>d. (fst d, t) \<notin> set (store_members v)) ?P = []"
    using known by (simp add: filter_empty_conv)
  have same: "v\<lparr>index_documents := ?D\<rparr> = v" by simp
  have after: "filter (\<lambda>d. doc_of_tenant t d \<and> c < doc_joinedAt d) ?D = []"
    using tied by (simp add: filter_empty_conv)
  show ?thesis
    unfolding cleanupMemberIndex_first_search scan cleanup_iteration[OF ne] none lastc
    by (simp add: after same)
qed

lemma tie_world_tied:
  "\<forall>d \<in> set (index_documents tie_world). doc_of_tenant ''t1'' d \<and> doc_joinedAt d = ''2023-01-05''"
  by (simp add: tie_world_def doc_of_tenant_def doc_joinedAt_def example_doc_def string_field_def
        del: index_key.simps)

lemma tie_world_page:
  "take pageSize (index_documents tie_world) =
     map (\<lambda>i. (index_key i, example_doc ''t1'' ''2023-01-05'')) [0..<500]"
  by (simp add: tie_world_def pageSize_def take_map del: index_key.simps)

lemma tie_world_known:
  "\<forall>d \<in> set (take pageSize (index_documents tie_world)). (fst d, ''t1'') \<in> set (store_members tie_world)"
  unfolding tie_world_page by (auto simp: tie_world_def simp del: index_key.simps)

lemma tie_world_orphan:
  "is_orphan ''t1'' tie_world (index_key 500, example_doc ''t1'' ''2023-01-05'')"
proof -
  have "(index_key 500, ''t1'') \<notin> set (store_members tie_world)"
  proof
    assume "(index_key 500, ''t1'') \<in> set (store_members tie_world)"
    then obtain i where "i < 500" and "index_key 500 = index_key i"
      by (auto simp: tie_world_def simp del: index_key.simps)
    then show False using index_key_inj[of 500 i] by (simp del: index_key.simps)
  qed
  then show ?thesis by (simp add: is_orphan_def doc_of_tenant_def example_doc_def del: index_key.simps)
qed

lemma pages_single: "xs \<noteq> [] \<Longrightarrow> length xs \<le> B \<Longrightarrow> pages B xs = [xs]"
  by (subst pages.simps) (cases xs, auto simp: pages_Nil)

lemma filter_upt:
  "sorted ys \<Longrightarrow> distinct ys \<Longrightarrow> set ys = {i. i < n \<and> P i} \<Longrightarrow> filter P [0..<n] = ys"
proof -
  assume s: "sorted ys" and d: "distinct ys" and e: "set ys = {i. i < n \<and> P i}"
  have a: "sorted (filter P [0..<n])" by (rule sorted_wrt_filter) (rule sorted_upt)
  have b: "distinct (filter P [0..<n])" by (rule distinct_filter) (rule distinct_upt)
  have c: "set (filter P [0..<n]) = set ys" unfolding e by (simp only: set_filter set_upt) auto
  show ?thesis by (rule sorted_distinct_set_unique[OF a b s d c])
qed

lemma dates_less: "''2023-01-05'' < ''2023-01-06''"
  by code_simp

lemma paged_doc_sel [simp]:
  "fst (paged_doc i) = index_key i"
  "doc_joinedAt (paged_doc i) = (if i < 500 then ''2023-01-05'' else ''2023-01-06'')"
  "doc_of_tenant ''t1'' (paged_doc i) \<longleftrightarrow> i < 501"
  by (simp_all add: paged_doc_def doc_joinedAt_def doc_of_tenant_def example_doc_def
        string_field_def del: index_key.simps)

lemma paged_member: "(index_key i, ''t1'') \<in> set (store_members paged_world) \<longleftrightarrow> 1 \<le> i \<and> i < 500"
proof
  assume "(index_key i, ''t1'') \<in> set (store_members paged_world)"
  then obtain j where "1 \<le> j" "j < 500" "index_key i = index_key j"
    by (auto simp: paged_world_def simp del: index_key.simps upt_rec_numeral)
  then show "1 \<le> i \<and> i < 500" using index_key_inj[of i j] by simp
next
  assume "1 \<le> i \<and> i < 500"
  then show "(index_key i, ''t1'') \<in> set (store_members paged_world)"
    by (auto simp: paged_world_def simp del: index_key.simps upt_rec_numeral)
qed

lemma paged_orphan: "is_orphan ''t1'' paged_world (paged_doc i) \<longleftrightarrow> i = 0 \<or> i = 500"
  unfolding is_orphan_def by (auto simp: paged_member simp del: index_key.simps)

lemma paged_distinct: "distinct (map fst (index_documents paged_world))"
  by (simp add: paged_world_def comp_def distinct_map inj_on_def index_key_inj
           del: index_key.simps upt_rec_numeral)

lemma paged_scan: "scan_order ''t1'' paged_world = map paged_doc [0..<501]"
proof -
  have "filter (\<lambda>i. i < 501) [0..<502] = [0..<501]"
    by (rule filter_upt) (auto simp del: upt_rec_numeral)
  then have f: "filter (doc_of_tenant ''t1'') (index_documents paged_world) = map paged_doc [0..<501]"
    by (simp add: paged_world_def filter_map comp_def del: upt_rec_numeral)
  have "sorted (map doc_joinedAt (map paged_doc [0..<501]))"
    using dates_less by (auto simp: sorted_iff_nth_mono less_imp_le simp del: upt_rec_numeral)
  then have "sort_key doc_joinedAt (map paged_doc [0..<501]) = map paged_doc [0..<501]"
    by (rule sort_key_id_if_sorted)
  with f show ?thesis by (simp add: scan_order_def del: upt_rec_numeral)
qed

lemma paged_pages:
  "pages pageSize (scan_order ''t1'' paged_world) = [map paged_doc [0..<500], [paged_doc 500]]"
proof -
  have t: "take 500 (map paged_doc [0..<501]) = map paged_doc [0..<500]"
    by (simp add: take_map del: upt_rec_numeral)
  have d: "drop 500 (map paged_doc [0..<501]) = [paged_doc 500]"
    by (simp add: drop_map del: upt_rec_numeral) (simp add: upt_rec)
  have "pages 500 (map paged_doc [0..<501]) =
      take 500 (map paged_doc [0..<501]) # pages 500 (drop 500 (map paged_doc [0..<501]))"
    by (rule pages_Cons) (simp_all del: upt_rec_numeral)
  also have "\<dots> = [map paged_doc [0..<500], [paged_doc 500]]"
    unfolding t d by (simp add: pages_single del: upt_rec_numeral)
  finally show ?thesis by (simp add: paged_scan pageSize_def del: upt_rec_numeral)
qed

text \<open>
  C1 (as amended). Over the specification's store and index, with ids unique in the index
  and no two documents either side of a page boundary sharing \<open>date_joinedAt\<close>: a
  cleanup pass searches with the filter on \<open>uuid_tenantId\<close>, ascending
  \<open>date_joinedAt\<close>, page size 500 and the projection \<open>date_joinedAt\<close>, first without a
  cursor and then with the last hit's \<open>date_joinedAt\<close> of each page; it asks the store once
  per page about that page's ids, in scan order; it removes, one call per id and in scan
  order, exactly the ids of the tenant's orphans; it returns the number of documents
  scanned after the search that comes back empty, with every call resolved, and the index
  is left with the orphans of the tenant gone and every other document in place. The loop
  runs once per page.
\<close>

theorem cleanup_removes_orphans:
  assumes "distinct (map fst (index_documents w))"
    and "page_breaks_strict doc_joinedAt (pages pageSize (scan_order tenantId w))"
  shows "(length (pages pageSize (scan_order tenantId w)) \<le> fuel \<longrightarrow>
           (\<exists>st'. cleanupMemberIndex fuel (spec_service rt) tenantId \<lparr>world = w, calls = []\<rparr>
                   = (Returned (length (scan_order tenantId w)), st') \<and>
                 world st' =
                   w\<lparr>index_documents :=
                       filter (\<lambda>d. \<not> is_orphan tenantId w d) (index_documents w)\<rparr> \<and>
                 removed_ids (calls st') =
                   map fst (filter (is_orphan tenantId w) (scan_order tenantId w)) \<and>
                 length (removed_ids (calls st')) =
                   length (filter (is_orphan tenantId w) (index_documents w)) \<and>
                 checked_pages (calls st') =
                   map (\<lambda>p. (tenantId, map fst p)) (pages pageSize (scan_order tenantId w)) \<and>
                 search_calls (calls st') =
                   map (\<lambda>cursor. Search MEMBERS (BoolFilterTerm ''uuid_tenantId'' tenantId) 500
                                   [(''date_joinedAt'', Asc)] cursor [''date_joinedAt''])
                     (None # map (\<lambda>p. Some (doc_joinedAt (last p)))
                               (pages pageSize (scan_order tenantId w))) \<and>
                 (\<forall>e \<in> set (calls st'). snd e = Resolved))) \<and>
         (fuel < length (pages pageSize (scan_order tenantId w)) \<longrightarrow>
            fst (cleanupMemberIndex fuel (spec_service rt) tenantId \<lparr>world = w, calls = []\<rparr>)
              = OutOfFuel)"
proof -
  let ?R = "scan_order tenantId w"
  let ?tr0 = "[(Search MEMBERS (cleanup_query tenantId) pageSize cleanup_sort None cleanup_include,
                Resolved)]"
  have R: "?R = sort_key doc_joinedAt
         (filter (\<lambda>d. doc_of_tenant tenantId d \<and>
                       (case None of None \<Rightarrow> True | Some c0 \<Rightarrow> c0 < doc_joinedAt d))
            (index_documents w))"
    by (simp add: scan_order_def)
  have start: "cleanupMemberIndex fuel (spec_service rt) tenantId \<lparr>world = w, calls = []\<rparr> =
      cleanupLoop fuel (spec_service rt) tenantId (map search_hit (take pageSize ?R)) 0
        \<lparr>world = w, calls = ?tr0\<rparr>"
    by (rule cleanupMemberIndex_first_search)
  have res0: "\<forall>e \<in> set ?tr0. snd e = Resolved" by simp
  note loop = cleanupLoop_spec[OF assms(1) R assms(2) res0, of fuel rt 0]
  have orph: "filter (\<lambda>d. \<not> (d \<in> set ?R \<and> (fst d, tenantId) \<notin> set (store_members w)))
        (index_documents w) = filter (\<lambda>d. \<not> is_orphan tenantId w d) (index_documents w)"
    by (rule filter_cong) (auto simp: scan_order_def is_orphan_def)
  have orphR: "filter (\<lambda>d. (fst d, tenantId) \<notin> set (store_members w)) ?R =
      filter (is_orphan tenantId w) ?R"
    by (rule filter_cong) (auto simp: scan_order_def is_orphan_def)
  have cnt: "length (filter (is_orphan tenantId w) ?R) =
      length (filter (is_orphan tenantId w) (index_documents w))"
  proof -
    have "filter (is_orphan tenantId w) ?R =
        sort_key doc_joinedAt (filter (is_orphan tenantId w)
          (filter (doc_of_tenant tenantId) (index_documents w)))"
      by (simp only: scan_order_def filter_sort)
    moreover have "filter (is_orphan tenantId w) (filter (doc_of_tenant tenantId) (index_documents w))
        = filter (is_orphan tenantId w) (index_documents w)"
      unfolding filter_filter by (rule filter_cong) (auto simp: is_orphan_def)
    ultimately show ?thesis by simp
  qed
  have shape: "map (\<lambda>p. Search MEMBERS (cleanup_query tenantId) pageSize cleanup_sort
                         (Some (doc_joinedAt (last p))) cleanup_include) ps =
      map (\<lambda>cursor. Search MEMBERS (BoolFilterTerm ''uuid_tenantId'' tenantId) 500
                                   [(''date_joinedAt'', Asc)] cursor [''date_joinedAt''])
        (map (\<lambda>p. Some (doc_joinedAt (last p))) ps)" for ps :: "(string \<times> json) list list"
    by (simp add: cleanup_query_def cleanup_sort_def cleanup_include_def pageSize_def)
  have shape0: "search_calls ?tr0 =
      [Search MEMBERS (BoolFilterTerm ''uuid_tenantId'' tenantId) 500
                                   [(''date_joinedAt'', Asc)] None [''date_joinedAt'']]"
    by (simp add: cleanup_query_def cleanup_sort_def cleanup_include_def pageSize_def)
  show ?thesis
  proof (intro conjI impI)
    assume "length (pages pageSize ?R) \<le> fuel"
    with loop obtain st' where
      r: "cleanupLoop fuel (spec_service rt) tenantId (map search_hit (take pageSize ?R)) 0
            \<lparr>world = w, calls = ?tr0\<rparr> = (Returned (0 + length ?R), st')"
      and wd: "world st' =
              w\<lparr>index_documents :=
                  filter (\<lambda>d. \<not> (d \<in> set ?R \<and> (fst d, tenantId) \<notin> set (store_members w)))
                    (index_documents w)\<rparr>"
      and rem: "removed_ids (calls st') =
              removed_ids ?tr0 @
              map fst (filter (\<lambda>d. (fst d, tenantId) \<notin> set (store_members w)) ?R)"
      and chk: "checked_pages (calls st') =
              checked_pages ?tr0 @ map (\<lambda>p. (tenantId, map fst p)) (pages pageSize ?R)"
      and sch: "search_calls (calls st') =
              search_calls ?tr0 @
              map (\<lambda>p. Search MEMBERS (cleanup_query tenantId) pageSize cleanup_sort
                         (Some (doc_joinedAt (last p))) cleanup_include)
                (pages pageSize ?R)"
      and rs: "\<forall>e \<in> set (calls st'). snd e = Resolved"
      by blast
    have 1: "cleanupMemberIndex fuel (spec_service rt) tenantId \<lparr>world = w, calls = []\<rparr>
                   = (Returned (length ?R), st')" using start r by simp
    have 2: "world st' =
                   w\<lparr>index_documents :=
                       filter (\<lambda>d. \<not> is_orphan tenantId w d) (index_documents w)\<rparr>"
      using wd orph by simp
    have 3: "removed_ids (calls st') = map fst (filter (is_orphan tenantId w) ?R)"
      using rem orphR by simp
    have 4: "length (removed_ids (calls st')) =
                   length (filter (is_orphan tenantId w) (index_documents w))"
      using 3 cnt by simp
    have 5: "checked_pages (calls st') =
                   map (\<lambda>p. (tenantId, map fst p)) (pages pageSize ?R)"
      using chk by simp
    have 6: "search_calls (calls st') =
                   map (\<lambda>cursor. Search MEMBERS (BoolFilterTerm ''uuid_tenantId'' tenantId) 500
                                   [(''date_joinedAt'', Asc)] cursor [''date_joinedAt''])
                     (None # map (\<lambda>p. Some (doc_joinedAt (last p))) (pages pageSize ?R))"
      unfolding sch shape shape0 by simp
    from 1 2 3 4 5 6 rs
    show "\<exists>st'. cleanupMemberIndex fuel (spec_service rt) tenantId \<lparr>world = w, calls = []\<rparr>
                   = (Returned (length ?R), st') \<and>
                 world st' =
                   w\<lparr>index_documents :=
                       filter (\<lambda>d. \<not> is_orphan tenantId w d) (index_documents w)\<rparr> \<and>
                 removed_ids (calls st') = map fst (filter (is_orphan tenantId w) ?R) \<and>
                 length (removed_ids (calls st')) =
                   length (filter (is_orphan tenantId w) (index_documents w)) \<and>
                 checked_pages (calls st') =
                   map (\<lambda>p. (tenantId, map fst p)) (pages pageSize ?R) \<and>
                 search_calls (calls st') =
                   map (\<lambda>cursor. Search MEMBERS (BoolFilterTerm ''uuid_tenantId'' tenantId) 500
                                   [(''date_joinedAt'', Asc)] cursor [''date_joinedAt''])
                     (None # map (\<lambda>p. Some (doc_joinedAt (last p))) (pages pageSize ?R)) \<and>
                 (\<forall>e \<in> set (calls st'). snd e = Resolved)"
      by blast
  next
    assume "fuel < length (pages pageSize ?R)"
    with loop start
    show "fst (cleanupMemberIndex fuel (spec_service rt) tenantId \<lparr>world = w, calls = []\<rparr>)
              = OutOfFuel" by simp
  qed
qed

text \<open>
  The theorem at an index of two pages, tenant \<open>t1\<close>: the first page holds the 500
  documents of the earlier day, the second the one of the later day; the orphans \<open>0\<close>
  and \<open>500\<close>, one on each page, are removed, and the document of the other tenant is
  neither scanned nor touched.
\<close>

theorem cleanup_removes_orphans_witness:
  "distinct (map fst (index_documents paged_world)) \<and>
   page_breaks_strict doc_joinedAt (pages pageSize (scan_order ''t1'' paged_world)) \<and>
   length (pages pageSize (scan_order ''t1'' paged_world)) = 2 \<and>
   (\<exists>st'. cleanupMemberIndex 2 (spec_service example_runtime) ''t1''
             \<lparr>world = paged_world, calls = []\<rparr> = (Returned 501, st') \<and>
          map fst (index_documents (world st')) = map index_key ([1..<500] @ [501]) \<and>
          removed_ids (calls st') = [index_key 0, index_key 500] \<and>
          checked_pages (calls st') =
            [(''t1'', map index_key [0..<500]), (''t1'', [index_key 500])] \<and>
          search_calls (calls st') =
            [Search MEMBERS (BoolFilterTerm ''uuid_tenantId'' ''t1'') 500
               [(''date_joinedAt'', Asc)] None [''date_joinedAt''],
             Search MEMBERS (BoolFilterTerm ''uuid_tenantId'' ''t1'') 500
               [(''date_joinedAt'', Asc)] (Some ''2023-01-05'') [''date_joinedAt''],
             Search MEMBERS (BoolFilterTerm ''uuid_tenantId'' ''t1'') 500
               [(''date_joinedAt'', Asc)] (Some ''2023-01-06'') [''date_joinedAt'']]) \<and>
   fst (cleanupMemberIndex 1 (spec_service example_runtime) ''t1''
          \<lparr>world = paged_world, calls = []\<rparr>) = OutOfFuel"
proof -
  note d = paged_distinct
  have b: "page_breaks_strict doc_joinedAt (pages pageSize (scan_order ''t1'' paged_world))"
    unfolding paged_pages using dates_less
    by (simp add: last_map del: index_key.simps upt_rec_numeral)
  have l: "length (pages pageSize (scan_order ''t1'' paged_world)) = 2"
    unfolding paged_pages by simp
  have keep: "filter (\<lambda>i. \<not> (i = 0 \<or> i = 500)) [0..<502] = [1..<500] @ [501]"
    by (rule filter_upt) (auto simp: sorted_append simp del: upt_rec_numeral)
  have o: "filter (\<lambda>d. \<not> is_orphan ''t1'' paged_world d) (index_documents paged_world) =
      map paged_doc ([1..<500] @ [501])"
    unfolding paged_world_def world.simps filter_map comp_def paged_orphan[unfolded paged_world_def]
    using keep by (simp del: upt_rec_numeral)
  have gone: "filter (\<lambda>i. i = 0 \<or> i = 500) [0..<501] = [0, 500]"
    by (rule filter_upt) (auto simp del: upt_rec_numeral)
  have r: "map fst (filter (is_orphan ''t1'' paged_world) (scan_order ''t1'' paged_world)) =
      [index_key 0, index_key 500]"
    unfolding paged_scan filter_map comp_def paged_orphan
    using gone by (simp del: index_key.simps upt_rec_numeral)
  from cleanup_removes_orphans[OF d b, of 2 example_runtime, THEN conjunct1, rule_format] l
  obtain st' where
      e1: "cleanupMemberIndex 2 (spec_service example_runtime) ''t1''
            \<lparr>world = paged_world, calls = []\<rparr> =
          (Returned (length (scan_order ''t1'' paged_world)), st')"
      and e2: "world st' = paged_world\<lparr>index_documents :=
                filter (\<lambda>d. \<not> is_orphan ''t1'' paged_world d) (index_documents paged_world)\<rparr>"
      and e3: "removed_ids (calls st') =
                map fst (filter (is_orphan ''t1'' paged_world) (scan_order ''t1'' paged_world))"
      and e4: "checked_pages (calls st') =
                map (\<lambda>p. (''t1'', map fst p)) (pages pageSize (scan_order ''t1'' paged_world))"
      and e5: "search_calls (calls st') =
                   map (\<lambda>cursor. Search MEMBERS (BoolFilterTerm ''uuid_tenantId'' ''t1'') 500
                                   [(''date_joinedAt'', Asc)] cursor [''date_joinedAt''])
                     (None # map (\<lambda>p. Some (doc_joinedAt (last p)))
                               (pages pageSize (scan_order ''t1'' paged_world)))"
    by auto
  have f1: "cleanupMemberIndex 2 (spec_service example_runtime) ''t1''
            \<lparr>world = paged_world, calls = []\<rparr> = (Returned 501, st')"
    using e1 by (simp add: paged_scan del: upt_rec_numeral)
  have f2: "map fst (index_documents (world st')) = map index_key ([1..<500] @ [501])"
    unfolding e2 using o by (simp add: comp_def del: index_key.simps upt_rec_numeral)
  have f3: "removed_ids (calls st') = [index_key 0, index_key 500]"
    using e3 r by (simp del: index_key.simps upt_rec_numeral)
  have f4: "checked_pages (calls st') =
            [(''t1'', map index_key [0..<500]), (''t1'', [index_key 500])]"
    unfolding e4 paged_pages by (simp add: comp_def del: index_key.simps upt_rec_numeral)
  have f5: "search_calls (calls st') =
            [Search MEMBERS (BoolFilterTerm ''uuid_tenantId'' ''t1'') 500
               [(''date_joinedAt'', Asc)] None [''date_joinedAt''],
             Search MEMBERS (BoolFilterTerm ''uuid_tenantId'' ''t1'') 500
               [(''date_joinedAt'', Asc)] (Some ''2023-01-05'') [''date_joinedAt''],
             Search MEMBERS (BoolFilterTerm ''uuid_tenantId'' ''t1'') 500
               [(''date_joinedAt'', Asc)] (Some ''2023-01-06'') [''date_joinedAt'']]"
    unfolding e5 paged_pages by (simp add: last_map del: index_key.simps upt_rec_numeral)
  from cleanup_removes_orphans[OF d b, of 1 example_runtime, THEN conjunct2, rule_format] l
  have f6: "fst (cleanupMemberIndex 1 (spec_service example_runtime) ''t1''
          \<lparr>world = paged_world, calls = []\<rparr>) = OutOfFuel"
    by simp
  from d b l f1 f2 f3 f4 f5 f6 show ?thesis by blast
qed

text \<open>
  C1 (counterexample). The removal is not exact when more than a page of documents share
  \<open>date_joinedAt\<close>: 501 documents of one tenant with the same timestamp, the first 500
  backed by the store and the last one an orphan. The first page holds the 500 members,
  the next search starts strictly after their timestamp and comes back empty, and the pass
  returns 500 with no removal: the orphan stays in the index.
\<close>

theorem cleanup_tied_orphan_survives:
  "is_orphan ''t1'' tie_world (index_key 500, example_doc ''t1'' ''2023-01-05'') \<and>
   (index_key 500, example_doc ''t1'' ''2023-01-05'') \<in> set (index_documents tie_world) \<and>
   distinct (map fst (index_documents tie_world)) \<and>
   cleanupMemberIndex 2 (spec_service example_runtime) ''t1'' \<lparr>world = tie_world, calls = []\<rparr> =
     (Returned 500,
      \<lparr>world = tie_world,
       calls = [(Search MEMBERS (BoolFilterTerm ''uuid_tenantId'' ''t1'') 500
                   [(''date_joinedAt'', Asc)] None [''date_joinedAt''], Resolved),
                (CheckMembersExists ''t1'' (map index_key [0..<500]), Resolved),
                (Search MEMBERS (BoolFilterTerm ''uuid_tenantId'' ''t1'') 500
                   [(''date_joinedAt'', Asc)] (Some ''2023-01-05'') [''date_joinedAt''],
                 Resolved)]\<rparr>)"
proof -
  have "(500::nat) \<in> {0..<501}" by simp
  then have "(\<lambda>i. (index_key i, example_doc ''t1'' ''2023-01-05'')) 500 \<in>
      (\<lambda>i. (index_key i, example_doc ''t1'' ''2023-01-05'')) ` {0..<501}"
    by (rule imageI)
  then have m: "(index_key 500, example_doc ''t1'' ''2023-01-05'') \<in> set (index_documents tie_world)"
    by (simp add: tie_world_def del: index_key.simps)
  have d: "distinct (map fst (index_documents tie_world))"
    by (simp add: tie_world_def comp_def distinct_map inj_on_def index_key_inj del: index_key.simps)
  have ne: "index_documents tie_world \<noteq> []" by (simp add: tie_world_def del: index_key.simps)
  have two: "(2::nat) = Suc 1" by simp
  have r: "cleanupMemberIndex 2 (spec_service example_runtime) ''t1'' \<lparr>world = tie_world, calls = []\<rparr> =
     (Returned 500,
      \<lparr>world = tie_world,
       calls = [(Search MEMBERS (BoolFilterTerm ''uuid_tenantId'' ''t1'') 500
                   [(''date_joinedAt'', Asc)] None [''date_joinedAt''], Resolved),
                (CheckMembersExists ''t1'' (map index_key [0..<500]), Resolved),
                (Search MEMBERS (BoolFilterTerm ''uuid_tenantId'' ''t1'') 500
                   [(''date_joinedAt'', Asc)] (Some ''2023-01-05'') [''date_joinedAt''],
                 Resolved)]\<rparr>)"
    unfolding two cleanup_tied[OF tie_world_tied tie_world_known ne] tie_world_page
    by (simp add: cleanup_query_def cleanup_sort_def cleanup_include_def pageSize_def comp_def
          del: index_key.simps)
  from tie_world_orphan m d r show ?thesis by blast
qed

end
